(* ===== verification/Prelude.thy ===== *)
theory Prelude
  imports Main "HOL-Library.Word" "HOL-Library.Char_ord" "HOL-Library.List_Lexorder"
    "HOL-Library.Sublist"
begin

text \<open>
  What the components of the web server share: the faults a C++ expression can end in, the
  operations of \<^verbatim>\<open>std::string\<close> the sources call, the numeric conversions of the standard
  library (\<^verbatim>\<open>std::to_string\<close>, \<^verbatim>\<open>std::stoi\<close>, \<^verbatim>\<open>std::stoull\<close>, \<^verbatim>\<open>istringstream >> std::hex\<close>)
  and \<^verbatim>\<open>std::map\<close> with string keys.

  A string is a list of bytes (\<^typ>\<open>char\<close>). The sources store the results of
  \<^verbatim>\<open>find\<close> and friends in an \<^verbatim>\<open>int\<close> and compare them with \<^verbatim>\<open>std::string::npos\<close>; in that type
  \<^verbatim>\<open>npos\<close> is \<open>-1\<close>, so positions are \<^typ>\<open>int\<close> here with \<open>-1\<close> for "not found", and a
  negative count handed to \<^verbatim>\<open>substr\<close> means "up to the end", as its conversion to
  \<^verbatim>\<open>size_t\<close> does. This is exact for strings shorter than \<open>2 ^ 31\<close> bytes.
\<close>

section \<open>Faults\<close>

text \<open>
  How an evaluation can end other than by a value: an exception of the standard library, or
  behaviour the C++ standard does not define (reading past the end of a string or a vector,
  dereferencing a null pointer, leaving a value-returning function without a return).
\<close>

datatype fault = Out_Of_Range | Invalid_Argument | Length_Error | Undefined_Behaviour

type_synonym 'a outcome = "fault + 'a"

definition bind_out :: "'a outcome \<Rightarrow> ('a \<Rightarrow> 'b outcome) \<Rightarrow> 'b outcome" where
  "bind_out m f = (case m of Inl e \<Rightarrow> Inl e | Inr x \<Rightarrow> f x)"

definition completes :: "'a outcome \<Rightarrow> bool" where
  "completes m = (case m of Inl _ \<Rightarrow> False | Inr _ \<Rightarrow> True)"

section \<open>Characters\<close>

abbreviation "CR \<equiv> CHR 0x0D"
abbreviation "LF \<equiv> CHR 0x0A"
abbreviation "TAB \<equiv> CHR 0x09"
abbreviation "SP \<equiv> CHR 0x20"
abbreviation "NUL \<equiv> CHR 0x00"
abbreviation "QUOTE \<equiv> CHR 0x22"
abbreviation "crlf \<equiv> [CR, LF]"

text \<open>A \<^verbatim>\<open>char\<close> promoted to \<^verbatim>\<open>int\<close>; \<^verbatim>\<open>char\<close> is signed on the target (x86-64).\<close>

definition int_of_char :: "char \<Rightarrow> int" where
  "int_of_char c = (let n = of_char c :: int in if n < 128 then n else n - 256)"

text \<open>\<^verbatim>\<open>static_cast<char>\<close> of an \<^verbatim>\<open>int\<close>: the low eight bits.\<close>

definition char_of_int :: "int \<Rightarrow> char" where
  "char_of_int v = char_of (nat (v mod 256))"

definition isdigit :: "char \<Rightarrow> bool" where
  "isdigit c = (CHR ''0'' \<le> c \<and> c \<le> CHR ''9'')"

definition isxdigit :: "char \<Rightarrow> bool" where
  "isxdigit c = (isdigit c \<or> CHR ''a'' \<le> c \<and> c \<le> CHR ''f'' \<or> CHR ''A'' \<le> c \<and> c \<le> CHR ''F'')"

definition isspace :: "char \<Rightarrow> bool" where
  "isspace c = (c \<in> {SP, TAB, LF, CHR 0x0B, CHR 0x0C, CR})"

definition isupper :: "char \<Rightarrow> bool" where
  "isupper c = (CHR ''A'' \<le> c \<and> c \<le> CHR ''Z'')"

definition islower :: "char \<Rightarrow> bool" where
  "islower c = (CHR ''a'' \<le> c \<and> c \<le> CHR ''z'')"

definition toupper :: "char \<Rightarrow> char" where
  "toupper c = (if islower c then char_of (of_char c - (32 :: nat)) else c)"

section \<open>Strings\<close>

text \<open>\<^verbatim>\<open>s.find(pat)\<close>: the first position at which \<open>pat\<close> occurs.\<close>

fun str_find :: "string \<Rightarrow> string \<Rightarrow> int" where
  "str_find pat [] = (if pat = [] then 0 else -1)"
| "str_find pat (c # cs) =
     (if take (length pat) (c # cs) = pat then 0
      else let r = str_find pat cs in if r < 0 then -1 else r + 1)"

text \<open>\<^verbatim>\<open>s.find_last_of("c")\<close> for a one-character set: the last position of that character.\<close>

fun find_last_of :: "char \<Rightarrow> string \<Rightarrow> int" where
  "find_last_of c [] = -1"
| "find_last_of c (x # xs) =
     (let r = find_last_of c xs in if 0 \<le> r then r + 1 else if x = c then 0 else -1)"

text \<open>\<^verbatim>\<open>s.substr(pos, n)\<close>: throws when \<open>pos\<close> is past the end; a negative \<open>n\<close> is huge.\<close>

definition substr :: "string \<Rightarrow> int \<Rightarrow> int \<Rightarrow> string outcome" where
  "substr s pos n =
     (if pos < 0 \<or> int (length s) < pos then Inl Out_Of_Range
      else Inr (if n < 0 then drop (nat pos) s else take (nat n) (drop (nat pos) s)))"

abbreviation substr_from :: "string \<Rightarrow> int \<Rightarrow> string outcome" where
  "substr_from s pos \<equiv> substr s pos (-1)"

text \<open>\<^verbatim>\<open>s.replace(pos, n, t)\<close>.\<close>

definition str_replace :: "string \<Rightarrow> int \<Rightarrow> nat \<Rightarrow> string \<Rightarrow> string outcome" where
  "str_replace s pos n t =
     (if pos < 0 \<or> int (length s) < pos then Inl Out_Of_Range
      else Inr (take (nat pos) s @ t @ drop (nat pos + n) s))"

text \<open>\<^verbatim>\<open>s[i]\<close>: the terminating null at \<open>i = size()\<close>, undefined elsewhere outside the string.\<close>

definition char_at :: "string \<Rightarrow> int \<Rightarrow> char outcome" where
  "char_at s i =
     (if i < 0 \<or> int (length s) < i then Inl Undefined_Behaviour
      else if i = int (length s) then Inr NUL else Inr (s ! nat i))"

text \<open>\<^verbatim>\<open>s.rfind(pat, 0) == 0\<close>: the test for a prefix.\<close>

definition starts_with :: "string \<Rightarrow> string \<Rightarrow> bool" where
  "starts_with pat s = (take (length pat) s = pat)"

text \<open>\<^verbatim>\<open>boost::trim\<close> with a predicate: both ends.\<close>

definition trim_if :: "(char \<Rightarrow> bool) \<Rightarrow> string \<Rightarrow> string" where
  "trim_if p s = rev (dropWhile p (rev (dropWhile p s)))"

section \<open>Numbers\<close>

definition digit_char :: "nat \<Rightarrow> char" where
  "digit_char d = char_of (48 + d)"

definition digit_val :: "char \<Rightarrow> int" where
  "digit_val c = int (of_char c - 48)"

definition xdigit_val :: "char \<Rightarrow> int" where
  "xdigit_val c =
     (if isdigit c then int (of_char c - 48)
      else if CHR ''a'' \<le> c \<and> c \<le> CHR ''f'' then int (of_char c - 87) else int (of_char c - 55))"

text \<open>\<^verbatim>\<open>std::to_string\<close> of an unsigned number.\<close>

fun to_string :: "nat \<Rightarrow> string" where
  "to_string n = (if n < 10 then [digit_char n] else to_string (n div 10) @ [digit_char (n mod 10)])"

declare to_string.simps [simp del]

definition dec_val :: "string \<Rightarrow> int" where
  "dec_val ds = foldl (\<lambda>n c. 10 * n + digit_val c) 0 ds"

definition hex_val :: "string \<Rightarrow> int" where
  "hex_val ds = foldl (\<lambda>n c. 16 * n + xdigit_val c) 0 ds"

text \<open>The optional sign the conversion functions accept: (negative, rest).\<close>

definition read_sign :: "string \<Rightarrow> bool \<times> string" where
  "read_sign s =
     (case s of [] \<Rightarrow> (False, [])
      | c # cs \<Rightarrow> if c = CHR ''-'' then (True, cs) else if c = CHR ''+'' then (False, cs) else (False, s))"

text \<open>
  \<^verbatim>\<open>std::stoi\<close>: leading white space, an optional sign, then decimal digits; what follows the
  digits is ignored. No digit is \<^verbatim>\<open>invalid_argument\<close>; a value outside a 32-bit \<^verbatim>\<open>int\<close> is
  \<^verbatim>\<open>out_of_range\<close>.
\<close>

definition stoi :: "string \<Rightarrow> int outcome" where
  "stoi s =
     (let (neg, t) = read_sign (dropWhile isspace s);
          ds = takeWhile isdigit t;
          v = (if neg then - dec_val ds else dec_val ds)
      in if ds = [] then Inl Invalid_Argument
         else if v < - (2 ^ 31) \<or> 2 ^ 31 \<le> v then Inl Out_Of_Range
         else Inr v)"

text \<open>
  \<^verbatim>\<open>std::stoull\<close>: as above into 64 unsigned bits. A minus sign negates modulo \<open>2 ^ 64\<close>, as
  \<^verbatim>\<open>strtoull\<close> does; only a magnitude that does not fit is out of range.
\<close>

definition stoull :: "string \<Rightarrow> 64 word outcome" where
  "stoull s =
     (let (neg, t) = read_sign (dropWhile isspace s);
          ds = takeWhile isdigit t;
          v = of_int (dec_val ds) :: 64 word
      in if ds = [] then Inl Invalid_Argument
         else if 2 ^ 64 \<le> dec_val ds then Inl Out_Of_Range
         else Inr (if neg then - v else v))"

text \<open>
  \<^verbatim>\<open>is >> std::hex >> value\<close> on a string stream: white space, an optional sign, an optional
  \<^verbatim>\<open>0x\<close>, hexadecimal digits; \<^const>\<open>None\<close> when the extraction fails. The sources only extract
  from two characters, so the value always fits.
\<close>

definition read_hex :: "string \<Rightarrow> int option" where
  "read_hex s =
     (let (neg, t) = read_sign (dropWhile isspace s);
          t' = (if take 2 t = ''0x'' \<or> take 2 t = ''0X'' then drop 2 t else t);
          ds = takeWhile isxdigit t'
      in if ds = [] then None
         else Some (if neg then - hex_val ds else hex_val ds))"

section \<open>Ordered maps with string keys\<close>

text \<open>
  A \<^verbatim>\<open>std::map<std::string, V>\<close> is a list of pairs in strictly ascending key order, which is
  also the order of its iteration. \<open>map_at\<close> is \<^verbatim>\<open>m[k]\<close> read for a value type whose default
  is \<open>d\<close>; that \<^verbatim>\<open>m[k]\<close> also stores the default is written out where the sources use it.
\<close>

type_synonym 'v smap = "(string \<times> 'v) list"

fun smap_update :: "string \<Rightarrow> 'v \<Rightarrow> 'v smap \<Rightarrow> 'v smap" where
  "smap_update k v [] = [(k, v)]"
| "smap_update k v ((k', v') # m) =
     (if k < k' then (k, v) # (k', v') # m
      else if k = k' then (k, v) # m
      else (k', v') # smap_update k v m)"

definition smap_lookup :: "'v smap \<Rightarrow> string \<Rightarrow> 'v option" where
  "smap_lookup m k = map_of m k"

definition smap_erase :: "string \<Rightarrow> 'v smap \<Rightarrow> 'v smap" where
  "smap_erase k m = filter (\<lambda>(k', _). k' \<noteq> k) m"

definition smap_wf :: "'v smap \<Rightarrow> bool" where
  "smap_wf m = sorted_wrt (<) (map fst m)"

text \<open>\<^verbatim>\<open>m.insert({k, v})\<close>: keeps an entry that is already there.\<close>

definition smap_insert :: "string \<Rightarrow> 'v \<Rightarrow> 'v smap \<Rightarrow> 'v smap" where
  "smap_insert k v m = (if smap_lookup m k = None then smap_update k v m else m)"

definition map_at :: "'v \<Rightarrow> 'v smap \<Rightarrow> string \<Rightarrow> 'v" where
  "map_at d m k = (case smap_lookup m k of None \<Rightarrow> d | Some v \<Rightarrow> v)"

text \<open>The range constructor of the map: the first pair with a given key wins.\<close>

definition smap_of_pairs :: "(string \<times> 'v) list \<Rightarrow> 'v smap" where
  "smap_of_pairs ps = fold (\<lambda>(k, v) m. smap_insert k v m) ps []"

section \<open>Lemmas\<close>

named_theorems cpp_defs \<open>definitions of the standard-library operations\<close>

lemmas [cpp_defs] = bind_out_def substr_def char_at_def str_replace_def starts_with_def
  map_at_def smap_lookup_def smap_erase_def smap_insert_def

lemma bind_out_simps [simp]:
  "bind_out (Inl e) f = Inl e" "bind_out (Inr x) f = f x"
  by (simp_all add: bind_out_def)

lemma bind_out_cong [fundef_cong]:
  "m = n \<Longrightarrow> (\<And>x. n = Inr x \<Longrightarrow> f x = g x) \<Longrightarrow> bind_out m f = bind_out n g"
  by (cases n) simp_all

lemma bind_out_Inr: "bind_out m f = Inr y \<longleftrightarrow> (\<exists>x. m = Inr x \<and> f x = Inr y)"
  by (cases m) auto

lemma completes_simps [simp]: "completes (Inr x)" "\<not> completes (Inl e)"
  by (simp_all add: completes_def)

lemma completes_iff: "completes m \<longleftrightarrow> (\<exists>x. m = Inr x)"
  by (cases m) auto

subsection \<open>Searching\<close>

lemma str_find_ge: "-1 \<le> str_find pat s"
  by (induction s) (auto simp: Let_def)

lemma str_find_le: "str_find pat s \<le> int (length s)"
  by (induction s) (auto simp: Let_def)

lemma str_find_absent: "pat \<noteq> [] \<Longrightarrow> str_find pat s = -1 \<longleftrightarrow> \<not> sublist pat s"
proof (induction s)
  case (Cons c cs)
  have "take (length pat) (c # cs) = pat \<longleftrightarrow> prefix pat (c # cs)"
    by (metis append_eq_conv_conj prefix_def append_take_drop_id)
  with Cons show ?case using str_find_ge [of pat cs] by (auto simp: Let_def sublist_Cons_right)
qed simp

lemma str_find_append_hit:
  "c \<notin> set xs \<Longrightarrow> str_find (c # pat) (xs @ c # pat @ ys) = int (length xs)"
  by (induction xs) auto

lemma str_find_char_absent: "str_find [c] s = -1 \<longleftrightarrow> c \<notin> set s"
proof (induction s)
  case (Cons x xs)
  have "-1 \<le> str_find [c] xs" by (rule str_find_ge)
  with Cons show ?case by (auto simp: Let_def)
qed simp

lemma str_find_char_split: "c \<notin> set xs \<Longrightarrow> str_find [c] (xs @ c # ys) = int (length xs)"
  by (induction xs) auto

lemma str_find_self: "str_find pat (pat @ s) = 0"
  by (cases pat; cases s) auto

lemma find_last_of_ge: "-1 \<le> find_last_of c s"
  by (induction s) (auto simp: Let_def)

lemma find_last_of_absent: "find_last_of c s = -1 \<longleftrightarrow> c \<notin> set s"
proof (induction s)
  case (Cons x xs)
  have "-1 \<le> find_last_of c xs" by (rule find_last_of_ge)
  with Cons show ?case by (auto simp: Let_def)
qed simp

lemma find_last_of_absent' [simp]: "c \<notin> set s \<Longrightarrow> find_last_of c s = -1"
  by (simp add: find_last_of_absent)

lemma find_last_of_split: "c \<notin> set ys \<Longrightarrow> find_last_of c (xs @ c # ys) = int (length xs)"
  by (induction xs) auto

lemma split_at_last:
  assumes "c \<in> set s"
  obtains xs ys where "s = xs @ c # ys" "c \<notin> set ys" "find_last_of c s = int (length xs)"
  using split_list_last [OF assms] find_last_of_split by metis

lemma find_last_of_less: "find_last_of c s < int (length s)"
  by (cases "c \<in> set s") (auto elim!: split_at_last simp: find_last_of_split)

subsection \<open>Cutting\<close>

lemma substr_prefix [simp]: "substr (xs @ ys) 0 (int (length xs)) = Inr xs"
  by (simp add: substr_def)

lemma substr_whole [simp]: "substr s 0 (-1) = Inr s"
  by (simp add: substr_def)

lemma substr_suffix [simp]: "substr (xs @ ys) (int (length xs)) (-1) = Inr ys"
  by (simp add: substr_def)

lemma substr_middle: "substr (xs @ ys @ zs) (int (length xs)) (int (length ys)) = Inr ys"
  by (simp add: substr_def)

lemma substr_in_range: "0 \<le> pos \<Longrightarrow> pos \<le> int (length s) \<Longrightarrow> completes (substr s pos n)"
  by (simp add: substr_def)

lemma char_at_last:
  "char_at s (int (length s) - 1) = (if s = [] then Inl Undefined_Behaviour else Inr (last s))"
proof (cases s rule: rev_cases)
  case (snoc xs x)
  then show ?thesis by (simp add: char_at_def)
qed (simp add: char_at_def)

lemma starts_with_append [simp]: "starts_with p (p @ s)"
  by (simp add: starts_with_def)

lemma starts_with_prefix: "starts_with p s \<longleftrightarrow> (\<exists>t. s = p @ t)"
  unfolding starts_with_def by (metis append_take_drop_id append_eq_conv_conj)

subsection \<open>Decimal digits\<close>

lemma less_10_cases:
  assumes "(d::nat) < 10"
  shows "d = 0 \<or> d = 1 \<or> d = 2 \<or> d = 3 \<or> d = 4 \<or> d = 5 \<or> d = 6 \<or> d = 7 \<or> d = 8 \<or> d = 9"
  using assms by arith

lemma isdigit_digit_char [simp]: "d < 10 \<Longrightarrow> isdigit (digit_char d)"
  by (drule less_10_cases) (auto simp: isdigit_def digit_char_def less_eq_char_def)

lemma digit_val_digit_char [simp]: "d < 10 \<Longrightarrow> digit_val (digit_char d) = int d"
  by (simp add: digit_val_def digit_char_def)

lemma dec_val_snoc: "dec_val (ds @ [c]) = 10 * dec_val ds + digit_val c"
  by (simp add: dec_val_def)

lemma to_string_nonempty [simp]: "to_string n \<noteq> []"
  by (subst to_string.simps) simp

lemma to_string_digits: "c \<in> set (to_string n) \<Longrightarrow> isdigit c"
proof (induction n rule: to_string.induct)
  case (1 n)
  show ?case
  proof (cases "n < 10")
    case True
    with "1.prems" show ?thesis by (auto simp: to_string.simps [of n])
  next
    case False
    with "1" show ?thesis by (auto simp: to_string.simps [of n])
  qed
qed

lemma dec_val_to_string [simp]: "dec_val (to_string n) = int n"
proof (induction n rule: to_string.induct)
  case (1 n)
  show ?case
  proof (cases "n < 10")
    case True
    then show ?thesis by (simp add: to_string.simps [of n] dec_val_def)
  next
    case False
    with "1" have "dec_val (to_string n) = 10 * int (n div 10) + int (n mod 10)"
      by (simp add: to_string.simps [of n] dec_val_snoc)
    then show ?thesis by presburger
  qed
qed

lemma isdigit_not_special:
  assumes "isdigit c"
  shows "\<not> isspace c" "c \<noteq> CHR ''-''" "c \<noteq> CHR ''+''" "c \<noteq> CR" "c \<noteq> LF" "c \<noteq> SP" "c \<noteq> CHR ''.''"
  using assms by (auto simp: isdigit_def isspace_def less_eq_char_def)

lemma dec_val_nonneg: "0 \<le> dec_val ds"
proof (induction ds rule: rev_induct)
  case (snoc c ds)
  then show ?case by (simp add: dec_val_snoc digit_val_def)
qed (simp add: dec_val_def)

lemma digits_read:
  assumes "ds \<noteq> []" "\<forall>c \<in> set ds. isdigit c"
  shows "read_sign (dropWhile isspace ds) = (False, ds)" "takeWhile isdigit ds = ds"
  using assms by (cases ds; auto simp: read_sign_def isdigit_not_special)+

lemma stoi_digits:
  assumes "ds \<noteq> []" "\<forall>c \<in> set ds. isdigit c"
  shows "stoi ds = (if 2 ^ 31 \<le> dec_val ds then Inl Out_Of_Range else Inr (dec_val ds))"
  using assms(1) dec_val_nonneg [of ds] by (simp add: stoi_def Let_def digits_read [OF assms])

lemma stoull_digits:
  assumes "ds \<noteq> []" "\<forall>c \<in> set ds. isdigit c"
  shows "stoull ds = (if 2 ^ 64 \<le> dec_val ds then Inl Out_Of_Range else Inr (of_int (dec_val ds)))"
  using assms(1) by (simp add: stoull_def Let_def digits_read [OF assms])

lemma stoi_to_string: "n < 2 ^ 31 \<Longrightarrow> stoi (to_string n) = Inr (int n)"
  using stoi_digits [of "to_string n"] to_string_digits by auto

lemma stoull_to_string: "n < 2 ^ 64 \<Longrightarrow> stoull (to_string n) = Inr (of_nat n)"
  using stoull_digits [of "to_string n"] to_string_digits by auto

subsection \<open>The interface of an ordered map\<close>

text \<open>
  What the components rely on when they keep headers, handlers or cached pages in a
  \<^verbatim>\<open>std::map\<close>: lookup after update and erase, and an iteration that visits each key once in
  ascending order.
\<close>

locale string_map =
  fixes lookup :: "'m \<Rightarrow> string \<Rightarrow> 'v option"
    and update :: "string \<Rightarrow> 'v \<Rightarrow> 'm \<Rightarrow> 'm"
    and erase :: "string \<Rightarrow> 'm \<Rightarrow> 'm"
    and iterate :: "'m \<Rightarrow> (string \<times> 'v) list"
    and wf :: "'m \<Rightarrow> bool"
  assumes lookup_update: "lookup (update k v m) = (lookup m)(k \<mapsto> v)"
    and lookup_erase: "lookup (erase k m) = (lookup m)(k := None)"
    and wf_update: "wf m \<Longrightarrow> wf (update k v m)"
    and wf_erase: "wf m \<Longrightarrow> wf (erase k m)"
    and iterate_sorted: "wf m \<Longrightarrow> sorted_wrt (<) (map fst (iterate m))"
    and iterate_lookup: "wf m \<Longrightarrow> map_of (iterate m) = lookup m"
begin

definition put_all :: "(string \<times> 'v) list \<Rightarrow> 'm \<Rightarrow> 'm" where
  "put_all ps m = fold (\<lambda>(k, v). update k v) ps m"

lemma put_all_wf: "wf m \<Longrightarrow> wf (put_all ps m)"
  unfolding put_all_def by (induction ps arbitrary: m) (auto simp: wf_update)

lemma put_all_lookup: "lookup (put_all ps m) = lookup m ++ map_of (rev ps)"
  unfolding put_all_def
  by (induction ps arbitrary: m) (auto simp: lookup_update map_add_upd_left fun_eq_iff map_add_def
      split: option.splits)

lemma iterate_keys_distinct: "wf m \<Longrightarrow> distinct (map fst (iterate m))"
  using iterate_sorted strict_sorted_iff by blast

lemma iterate_set: "wf m \<Longrightarrow> (k, v) \<in> set (iterate m) \<longleftrightarrow> lookup m k = Some v"
  using iterate_lookup [of m] iterate_keys_distinct [of m] map_of_eq_Some_iff by metis

end

lemma smap_update_keys: "fst ` set (smap_update k v m) = insert k (fst ` set m)"
  by (induction k v m rule: smap_update.induct) auto

lemma smap_lookup_update: "smap_lookup (smap_update k v m) = (smap_lookup m)(k \<mapsto> v)"
  unfolding smap_lookup_def by (induction k v m rule: smap_update.induct) (auto simp: fun_eq_iff)

lemma smap_lookup_erase: "smap_lookup (smap_erase k m) = (smap_lookup m)(k := None)"
  unfolding smap_lookup_def smap_erase_def by (induction m) (auto simp: fun_eq_iff)

lemma smap_wf_update: "smap_wf m \<Longrightarrow> smap_wf (smap_update k v m)"
  unfolding smap_wf_def
proof (induction k v m rule: smap_update.induct)
  case (2 k v k' v' m)
  have "set (map fst (smap_update k v m)) = insert k (set (map fst m))"
    using smap_update_keys [of k v m] by simp
  with 2 show ?case by (auto simp del: set_map)
qed simp

lemma smap_wf_erase: "smap_wf m \<Longrightarrow> smap_wf (smap_erase k m)"
  unfolding smap_wf_def smap_erase_def by (induction m) (auto split: prod.splits)

interpretation headers_map: string_map smap_lookup smap_update smap_erase "\<lambda>m. m" smap_wf
  by unfold_locales
    (simp_all add: smap_lookup_update smap_lookup_erase smap_wf_update smap_wf_erase,
     simp_all add: smap_wf_def smap_lookup_def fun_eq_iff)

lemma smap_wf_Nil [simp]: "smap_wf []"
  by (simp add: smap_wf_def)

lemma smap_lookup_Nil [simp]: "smap_lookup [] k = None"
  by (simp add: smap_lookup_def)

lemma smap_lookup_insert:
  "smap_lookup (smap_insert k v m) k' =
     (if k' = k \<and> smap_lookup m k = None then Some v else smap_lookup m k')"
  by (auto simp: smap_insert_def smap_lookup_update)

lemma smap_wf_insert: "smap_wf m \<Longrightarrow> smap_wf (smap_insert k v m)"
  by (simp add: smap_insert_def smap_wf_update)

lemma smap_of_pairs_wf: "smap_wf (smap_of_pairs ps)"
proof -
  have "smap_wf m \<Longrightarrow> smap_wf (fold (\<lambda>(k, v) m. smap_insert k v m) ps m)" for m :: "'a smap"
    by (induction ps arbitrary: m) (auto simp: smap_wf_insert)
  then show ?thesis by (simp add: smap_of_pairs_def)
qed

lemma smap_of_pairs_lookup: "smap_lookup (smap_of_pairs ps) = map_of ps"
proof -
  have "smap_lookup (fold (\<lambda>(k, v) m. smap_insert k v m) ps m) = map_of ps ++ smap_lookup m"
    for m :: "'a smap"
    by (induction ps arbitrary: m)
      (auto simp: fun_eq_iff map_add_def smap_lookup_insert split: option.splits)
  then show ?thesis by (simp add: smap_of_pairs_def fun_eq_iff map_add_def split: option.splits)
qed

subsection \<open>The interface of a character-driven machine\<close>

text \<open>
  Both parsers of the server read one character at a time and either go on in a new state
  (\<^const>\<open>Inl\<close>) or stop with an output (\<^const>\<open>Inr\<close>). What follows from that alone is proved once.
\<close>

locale char_machine =
  fixes step :: "char \<Rightarrow> 's \<Rightarrow> 's + 'o"
    and run :: "'s \<Rightarrow> string \<Rightarrow> 's + ('o \<times> string)"
  assumes run_Nil: "run s [] = Inl s"
    and run_Cons: "run s (c # cs) =
      (case step c s of Inl s' \<Rightarrow> run s' cs | Inr out \<Rightarrow> Inr (out, cs))"
begin

lemma run_append:
  "run s (xs @ ys) =
     (case run s xs of Inl s' \<Rightarrow> run s' ys | Inr (out, rest) \<Rightarrow> Inr (out, rest @ ys))"
  by (induction xs arbitrary: s) (auto simp: run_Nil run_Cons split: sum.splits)

lemma run_on: "run s xs = Inl s' \<Longrightarrow> run s (xs @ ys) = run s' ys"
  by (simp add: run_append)

lemma run_stops:
  assumes "run s xs = Inr (out, rest)"
  obtains pre c s' where "xs = pre @ c # rest" "run s pre = Inl s'" "step c s' = Inr out"
  using assms
proof (induction xs arbitrary: s thesis)
  case Nil
  then show ?case by (simp add: run_Nil)
next
  case (Cons x xs)
  show ?case
  proof (cases "step x s")
    case (Inl t)
    with Cons.prems(2) have "run t xs = Inr (out, rest)" by (simp add: run_Cons)
    then obtain pre c s' where "xs = pre @ c # rest" "run t pre = Inl s'" "step c s' = Inr out"
      using Cons.IH by blast
    with Inl show ?thesis by (intro Cons.prems(1) [of "x # pre" c s']) (auto simp: run_Cons)
  next
    case (Inr out')
    with Cons.prems(2) have "out' = out" "xs = rest" by (auto simp: run_Cons)
    with Inr show ?thesis by (intro Cons.prems(1) [of "[]" x s]) (auto simp: run_Nil)
  qed
qed

lemma run_invariant:
  assumes "\<And>c s s'. I s \<Longrightarrow> step c s = Inl s' \<Longrightarrow> I s'"
  shows "I s \<Longrightarrow> run s xs = Inl s' \<Longrightarrow> I s'"
  by (induction xs arbitrary: s) (auto simp: run_Nil run_Cons dest: assms split: sum.splits)

end

end
