(* ===== verification/Config_Parser.thy ===== *)
theory Config_Parser
  imports Prelude
begin

text \<open>
  The configuration parser of \<^verbatim>\<open>src/config_parser.cc\<close>: printing a configuration
  (\<^verbatim>\<open>ToString\<close>), the tokenizer (\<^verbatim>\<open>ParseToken\<close>, \<^verbatim>\<open>getToken\<close>) and the parser proper (\<^verbatim>\<open>Parse\<close>).

  The stream is the list of characters not read yet. A read past the end leaves the stream in a
  state where every later read fails; with no characters left the next call behaves the same.
\<close>

section \<open>Configurations\<close>

text \<open>
  A statement is its tokens and, where it opens a block, the configuration inside
  (\<^verbatim>\<open>child_block_\<close>); a configuration is a list of statements.
\<close>

datatype NginxConfigStatement = Statement (tokens: "string list") (child_block: "NginxConfig option")
  and NginxConfig = Config (statements: "NginxConfigStatement list")

definition indent :: "nat \<Rightarrow> string" where
  "indent depth = concat (replicate depth ''  '')"

fun join_tokens :: "string list \<Rightarrow> string" where
  "join_tokens [] = []"
| "join_tokens [t] = t"
| "join_tokens (t # u # ts) = t @ [SP] @ join_tokens (u # ts)"

fun stmt_ToString :: "nat \<Rightarrow> NginxConfigStatement \<Rightarrow> string"
  and config_ToString :: "nat \<Rightarrow> NginxConfig \<Rightarrow> string" where
  "stmt_ToString depth (Statement ts child) =
     indent depth @ join_tokens ts @
     (case child of
        Some block \<Rightarrow> '' {'' @ [LF] @ config_ToString (Suc depth) block @ indent depth @ ''}''
      | None \<Rightarrow> '';'') @ [LF]"
| "config_ToString depth (Config ss) = concat (map (stmt_ToString depth) ss)"

section \<open>Tokens\<close>

datatype TokenType =
    TOKEN_TYPE_START | TOKEN_TYPE_NORMAL | TOKEN_TYPE_START_BLOCK | TOKEN_TYPE_END_BLOCK
  | TOKEN_TYPE_COMMENT | TOKEN_TYPE_STATEMENT_END | TOKEN_TYPE_EOF | TOKEN_TYPE_ERROR

fun TokenTypeAsString :: "TokenType \<Rightarrow> string" where
  "TokenTypeAsString TOKEN_TYPE_START = ''TOKEN_TYPE_START''"
| "TokenTypeAsString TOKEN_TYPE_NORMAL = ''TOKEN_TYPE_NORMAL''"
| "TokenTypeAsString TOKEN_TYPE_START_BLOCK = ''TOKEN_TYPE_START_BLOCK''"
| "TokenTypeAsString TOKEN_TYPE_END_BLOCK = ''TOKEN_TYPE_END_BLOCK''"
| "TokenTypeAsString TOKEN_TYPE_COMMENT = ''TOKEN_TYPE_COMMENT''"
| "TokenTypeAsString TOKEN_TYPE_STATEMENT_END = ''TOKEN_TYPE_STATEMENT_END''"
| "TokenTypeAsString TOKEN_TYPE_EOF = ''TOKEN_TYPE_EOF''"
| "TokenTypeAsString TOKEN_TYPE_ERROR = ''TOKEN_TYPE_ERROR''"

datatype TokenParserState =
    TOKEN_STATE_INITIAL_WHITESPACE | TOKEN_STATE_SINGLE_QUOTE | TOKEN_STATE_DOUBLE_QUOTE
  | TOKEN_STATE_TOKEN_TYPE_COMMENT | TOKEN_STATE_TOKEN_TYPE_NORMAL

text \<open>
  One turn of the loop of \<^verbatim>\<open>ParseToken\<close>: go on with a state and the value so far, or return a
  token type and value; the flag says whether the character was put back with \<^verbatim>\<open>unget\<close>.
\<close>

definition ends_normal :: "char \<Rightarrow> bool" where
  "ends_normal c = (c \<in> {SP, TAB, LF, CHR '';'', CHR ''{'', CHR ''}''})"

definition token_step :: "char \<Rightarrow> TokenParserState \<times> string \<Rightarrow>
    (TokenParserState \<times> string) + (TokenType \<times> string \<times> bool)" where
  "token_step c sv =
     (case sv of (state, val) \<Rightarrow>
       (case state of
          TOKEN_STATE_INITIAL_WHITESPACE \<Rightarrow>
            if c = CHR ''{'' then Inr (TOKEN_TYPE_START_BLOCK, [c], False)
            else if c = CHR ''}'' then Inr (TOKEN_TYPE_END_BLOCK, [c], False)
            else if c = CHR ''#'' then Inl (TOKEN_STATE_TOKEN_TYPE_COMMENT, [c])
            else if c = QUOTE then Inl (TOKEN_STATE_DOUBLE_QUOTE, [c])
            else if c = CHR 0x27 then Inl (TOKEN_STATE_SINGLE_QUOTE, [c])
            else if c = CHR '';'' then Inr (TOKEN_TYPE_STATEMENT_END, [c], False)
            else if c \<in> {SP, TAB, LF, CR} then Inl (TOKEN_STATE_INITIAL_WHITESPACE, val)
            else Inl (TOKEN_STATE_TOKEN_TYPE_NORMAL, val @ [c])
        | TOKEN_STATE_SINGLE_QUOTE \<Rightarrow>
            if c = CHR 0x27 then Inr (TOKEN_TYPE_NORMAL, val @ [c], False)
            else Inl (TOKEN_STATE_SINGLE_QUOTE, val @ [c])
        | TOKEN_STATE_DOUBLE_QUOTE \<Rightarrow>
            if c = QUOTE then Inr (TOKEN_TYPE_NORMAL, val @ [c], False)
            else Inl (TOKEN_STATE_DOUBLE_QUOTE, val @ [c])
        | TOKEN_STATE_TOKEN_TYPE_COMMENT \<Rightarrow>
            if c = LF \<or> c = CR then Inr (TOKEN_TYPE_COMMENT, val, False)
            else Inl (TOKEN_STATE_TOKEN_TYPE_COMMENT, val @ [c])
        | TOKEN_STATE_TOKEN_TYPE_NORMAL \<Rightarrow>
            if ends_normal c then Inr (TOKEN_TYPE_NORMAL, val, True)
            else Inl (TOKEN_STATE_TOKEN_TYPE_NORMAL, val @ [c])))"

fun token_loop :: "TokenParserState \<Rightarrow> string \<Rightarrow> string \<Rightarrow> TokenType \<times> string \<times> string" where
  "token_loop state val [] =
     (if state = TOKEN_STATE_SINGLE_QUOTE \<or> state = TOKEN_STATE_DOUBLE_QUOTE
      then (TOKEN_TYPE_ERROR, val, []) else (TOKEN_TYPE_EOF, val, []))"
| "token_loop state val (c # cs) =
     (case token_step c (state, val) of
        Inl (state', val') \<Rightarrow> token_loop state' val' cs
      | Inr (ty, val', unget) \<Rightarrow> (ty, val', if unget then c # cs else cs))"

text \<open>The type and the value of the next token, and the rest of the stream.\<close>

definition ParseToken :: "string \<Rightarrow> TokenType \<times> string \<times> string" where
  "ParseToken input = token_loop TOKEN_STATE_INITIAL_WHITESPACE [] input"

definition getToken :: "string \<Rightarrow> string \<times> string" where
  "getToken input = (case ParseToken input of (_, token, rest) \<Rightarrow> (token, rest))"

section \<open>The parser\<close>

text \<open>
  The parser keeps a stack of pointers to the configurations that are open. Each but the lowest
  is the child block of the last statement of the one below, and only the top is written, so
  the stack is modelled as the list of open statement lists, innermost first: closing a block
  stores the top as the child of the last statement below.
\<close>

record parse_state =
  braces_stack :: nat
  config_stack :: "NginxConfigStatement list list"
  blocks_content :: "NginxConfig list"
  last_token_type :: TokenType

text \<open>\<^verbatim>\<open>config_stack.top()->statements_.emplace_back(new NginxConfigStatement)\<close>\<close>

definition new_statement :: "NginxConfigStatement list list \<Rightarrow> NginxConfigStatement list list" where
  "new_statement st = (case st of [] \<Rightarrow> [] | cur # below \<Rightarrow> (cur @ [Statement [] None]) # below)"

text \<open>\<^verbatim>\<open>config_stack.top()->statements_.back()->tokens_.push_back(token)\<close>: undefined on an empty block.\<close>

definition push_token :: "string \<Rightarrow> NginxConfigStatement list list \<Rightarrow> NginxConfigStatement list list outcome" where
  "push_token t st =
     (case st of
        [] \<Rightarrow> Inl Undefined_Behaviour
      | cur # below \<Rightarrow>
          if cur = [] then Inl Undefined_Behaviour
          else case last cur of Statement ts ch \<Rightarrow>
                 Inr ((butlast cur @ [Statement (ts @ [t]) ch]) # below))"

text \<open>
  \<^verbatim>\<open>statements_.back()->child_block_.reset(new_config); config_stack.push(new_config)\<close>
\<close>

definition open_block :: "NginxConfigStatement list list \<Rightarrow> NginxConfigStatement list list outcome" where
  "open_block st =
     (case st of
        [] \<Rightarrow> Inl Undefined_Behaviour
      | cur # below \<Rightarrow> if cur = [] then Inl Undefined_Behaviour else Inr ([] # cur # below))"

definition set_child :: "NginxConfigStatement list \<Rightarrow> NginxConfigStatement list \<Rightarrow> NginxConfigStatement list" where
  "set_child cur below =
     (if below = [] then []
      else butlast below @ [Statement (tokens (last below)) (Some (Config cur))])"

fun close_block :: "NginxConfigStatement list list \<Rightarrow> NginxConfigStatement list list" where
  "close_block (cur # below # st) = set_child cur below # st"
| "close_block st = st"

text \<open>The configuration the caller sees: every open block is in place below.\<close>

fun whole_config :: "NginxConfigStatement list list \<Rightarrow> NginxConfig" where
  "whole_config [] = Config []"
| "whole_config [cur] = Config cur"
| "whole_config (cur # below # st) = whole_config (set_child cur below # st)"

text \<open>What the loop of \<^verbatim>\<open>Parse\<close> does with one token: go on, or return a verdict.\<close>

datatype parse_verdict =
    Parsed
  | Bad_Transition TokenType TokenType
  | Too_Many_Right
  | Too_Many_Left

definition parse_token_step :: "TokenType \<Rightarrow> string \<Rightarrow> parse_state \<Rightarrow>
    (parse_state + parse_state \<times> parse_verdict) outcome" where
  "parse_token_step ty token s =
     (let lt = last_token_type s;
          stop = (\<lambda>s'. Inr (Inr (s', Bad_Transition lt ty)));
          first = (case token of [] \<Rightarrow> NUL | c # _ \<Rightarrow> c)
      in if first = CHR ''}'' \<and> braces_stack s = 0 then stop s
         else
           let s1 = (if first = CHR ''{'' then s\<lparr>braces_stack := braces_stack s + 1\<rparr>
                     else if first = CHR ''}'' then s\<lparr>braces_stack := braces_stack s - 1\<rparr> else s)
           in case ty of
             TOKEN_TYPE_ERROR \<Rightarrow> stop s1
           | TOKEN_TYPE_COMMENT \<Rightarrow> Inr (Inl s1)
           | TOKEN_TYPE_START \<Rightarrow> stop s1
           | TOKEN_TYPE_NORMAL \<Rightarrow>
               if lt \<in> {TOKEN_TYPE_START, TOKEN_TYPE_STATEMENT_END, TOKEN_TYPE_START_BLOCK,
                        TOKEN_TYPE_END_BLOCK, TOKEN_TYPE_NORMAL}
               then bind_out (push_token token (if lt \<noteq> TOKEN_TYPE_NORMAL
                                then new_statement (config_stack s1) else config_stack s1))
                      (\<lambda>st. Inr (Inl (s1\<lparr>config_stack := st, last_token_type := ty\<rparr>)))
               else stop s1
           | TOKEN_TYPE_STATEMENT_END \<Rightarrow>
               if lt \<noteq> TOKEN_TYPE_NORMAL then stop s1 else Inr (Inl (s1\<lparr>last_token_type := ty\<rparr>))
           | TOKEN_TYPE_START_BLOCK \<Rightarrow>
               if lt \<noteq> TOKEN_TYPE_NORMAL then stop s1
               else bind_out (open_block (config_stack s1))
                      (\<lambda>st. Inr (Inl (s1\<lparr>config_stack := st, last_token_type := ty\<rparr>)))
           | TOKEN_TYPE_END_BLOCK \<Rightarrow>
               if lt \<noteq> TOKEN_TYPE_STATEMENT_END \<and> lt \<noteq> TOKEN_TYPE_END_BLOCK \<and> lt \<noteq> TOKEN_TYPE_START_BLOCK
               then stop s1
               else if length (config_stack s1) \<le> 1 then Inr (Inr (s1, Too_Many_Right))
               else Inr (Inl (s1\<lparr>blocks_content := blocks_content s1 @ [Config (hd (config_stack s1))],
                                 config_stack := close_block (config_stack s1), last_token_type := ty\<rparr>))
           | TOKEN_TYPE_EOF \<Rightarrow>
               if lt \<noteq> TOKEN_TYPE_STATEMENT_END \<and> lt \<noteq> TOKEN_TYPE_END_BLOCK \<and> lt \<noteq> TOKEN_TYPE_START
               then stop s1
               else if length (config_stack s1) \<noteq> 1 then Inr (Inr (s1, Too_Many_Left))
               else if braces_stack s1 \<noteq> 0 then stop s1
               else Inr (Inr (s1, Parsed)))"

subsection \<open>The tokenizer as a character-driven machine\<close>

fun token_run :: "TokenParserState \<times> string \<Rightarrow> string \<Rightarrow>
    (TokenParserState \<times> string) + ((TokenType \<times> string \<times> bool) \<times> string)" where
  "token_run sv [] = Inl sv"
| "token_run sv (c # cs) =
     (case token_step c sv of Inl sv' \<Rightarrow> token_run sv' cs | Inr out \<Rightarrow> Inr (out, cs))"

interpretation tokm: char_machine token_step token_run
  by unfold_locales simp_all

lemma token_step_unget:
  "token_step c (state, val) = Inr (ty, val', True) \<Longrightarrow> state = TOKEN_STATE_TOKEN_TYPE_NORMAL"
  by (cases state) (simp_all add: token_step_def split: if_splits)

lemma token_loop_le:
  "token_loop state val s = (ty, tok, rest) \<Longrightarrow> length rest \<le> length s"
proof (induction state val s rule: token_loop.induct)
  case (2 state val c cs)
  show ?case
  proof (cases "token_step c (state, val)")
    case (Inl sv)
    with 2 show ?thesis by (cases sv) force
  next
    case (Inr out)
    with "2.prems" show ?thesis by (cases out) (auto split: if_splits)
  qed
qed (auto split: if_splits)

lemma ParseToken_shorter:
  assumes "ParseToken s = (ty, tok, rest)" "s \<noteq> []"
  shows "length rest < length s"
proof (cases s)
  case (Cons c cs)
  let ?st = "(TOKEN_STATE_INITIAL_WHITESPACE, [])"
  show ?thesis
  proof (cases "token_step c ?st")
    case (Inl sv)
    obtain st' val' where "sv = (st', val')" by (cases sv)
    with Inl Cons assms(1) have "token_loop st' val' cs = (ty, tok, rest)" by (simp add: ParseToken_def)
    then have "length rest \<le> length cs" by (rule token_loop_le)
    with Cons show ?thesis by simp
  next
    case (Inr out)
    obtain ty' val' u where out: "out = (ty', val', u)" by (cases out)
    with Inr have "\<not> u" using token_step_unget [of c _ _ ty' val'] by (cases u) auto
    with Inr out Cons assms(1) show ?thesis by (auto simp: ParseToken_def)
  qed
qed (use assms(2) in simp)

lemma ParseToken_Nil [simp]: "ParseToken [] = (TOKEN_TYPE_EOF, [], [])"
  by (simp add: ParseToken_def)

lemma token_step_type:
  "token_step c sv = Inr (ty, val, u) \<Longrightarrow> ty \<notin> {TOKEN_TYPE_EOF, TOKEN_TYPE_ERROR, TOKEN_TYPE_START}"
  by (cases sv; cases "fst sv") (auto simp: token_step_def split: if_splits)

subsection \<open>The loop over the tokens\<close>

lemma parse_token_step_EOF: "parse_token_step TOKEN_TYPE_EOF tok s \<noteq> Inr (Inl s')"
  by (simp add: parse_token_step_def Let_def)

lemma parse_token_step_ERROR: "parse_token_step TOKEN_TYPE_ERROR tok s \<noteq> Inr (Inl s')"
  by (simp add: parse_token_step_def Let_def)

lemma config_loop_decreases:
  assumes "(ty, token, rest) = ParseToken input" "parse_token_step ty token s = Inr (Inl s')"
  shows "length rest < length input"
proof (cases "input = []")
  case True
  with assms show ?thesis using parse_token_step_EOF by simp
next
  case False
  with assms show ?thesis using ParseToken_shorter by metis
qed

text \<open>\<^verbatim>\<open>NginxConfigParser::Parse(std::istream*, NginxConfig*)\<close>: the final state and the verdict.\<close>

function config_loop :: "parse_state \<Rightarrow> string \<Rightarrow> (parse_state \<times> parse_verdict) outcome" where
  "config_loop s input =
     (case ParseToken input of (ty, token, rest) \<Rightarrow>
        bind_out (parse_token_step ty token s)
          (\<lambda>r. case r of Inl s' \<Rightarrow> config_loop s' rest | Inr out \<Rightarrow> Inr out))"
  by pat_completeness auto
termination
  by (relation "measure (\<lambda>(s, input). length input)") (auto dest: config_loop_decreases)

declare config_loop.simps [simp del]

definition initial_state :: "NginxConfigStatement list \<Rightarrow> NginxConfig list \<Rightarrow> parse_state" where
  "initial_state ss blocks = \<lparr>braces_stack = 0, config_stack = [ss], blocks_content = blocks,
     last_token_type = TOKEN_TYPE_START\<rparr>"

text \<open>
  \<^verbatim>\<open>Parse\<close> on a stream: the returned flag, the configuration the out-parameter holds afterwards, and
  the parser's list of block contents. The configuration passed in may already have statements,
  and a parser object may have blocks of an earlier call.
\<close>

definition Parse_config :: "string \<Rightarrow> NginxConfig \<Rightarrow> NginxConfig list \<Rightarrow>
    (bool \<times> NginxConfig \<times> NginxConfig list) outcome" where
  "Parse_config input config blocks =
     bind_out (config_loop (initial_state (statements config) blocks) input)
       (\<lambda>(s, v). Inr (v = Parsed, whole_config (config_stack s), blocks_content s))"

text \<open>
  \<^verbatim>\<open>Parse\<close> on a file name; \<^const>\<open>None\<close> is a file that cannot be opened.
\<close>

definition Parse_file :: "string option \<Rightarrow> NginxConfig \<Rightarrow> NginxConfig list \<Rightarrow>
    (bool \<times> NginxConfig \<times> NginxConfig list) outcome" where
  "Parse_file file config blocks =
     (case file of None \<Rightarrow> Inr (False, config, blocks) | Some input \<Rightarrow> Parse_config input config blocks)"

section \<open>Parsing inverts printing\<close>

text \<open>
  The tokens a configuration file can contain: a word, which starts with none of the characters
  the tokenizer treats specially and contains no delimiter, or a string in quotes.
\<close>

definition word_token :: "string \<Rightarrow> bool" where
  "word_token t = (t \<noteq> [] \<and> hd t \<notin> {CHR ''#'', QUOTE, CHR 0x27, CR} \<and> (\<forall>c \<in> set t. \<not> ends_normal c))"

definition quoted_token :: "string \<Rightarrow> bool" where
  "quoted_token t =
     (\<exists>q \<in> {QUOTE, CHR 0x27}. 2 \<le> length t \<and> hd t = q \<and> last t = q \<and> q \<notin> set (butlast (tl t)))"

definition token_wf :: "string \<Rightarrow> bool" where
  "token_wf t = (word_token t \<or> quoted_token t)"

fun stmt_wf :: "NginxConfigStatement \<Rightarrow> bool"
  and config_wf :: "NginxConfig \<Rightarrow> bool" where
  "stmt_wf (Statement ts child) =
     (ts \<noteq> [] \<and> list_all token_wf ts \<and> (case child of None \<Rightarrow> True | Some b \<Rightarrow> config_wf b))"
| "config_wf (Config ss) = list_all stmt_wf ss"

text \<open>The contents of the blocks, in the order in which they are closed.\<close>

fun stmt_blocks :: "NginxConfigStatement \<Rightarrow> NginxConfig list"
  and config_blocks :: "NginxConfig \<Rightarrow> NginxConfig list" where
  "stmt_blocks (Statement ts child) = (case child of None \<Rightarrow> [] | Some b \<Rightarrow> config_blocks b @ [b])"
| "config_blocks (Config ss) = concat (map stmt_blocks ss)"

subsection \<open>Single tokens\<close>

definition blank :: "char \<Rightarrow> bool" where
  "blank c = (c \<in> {SP, TAB, LF, CR})"

lemma ParseToken_blank: "blank c \<Longrightarrow> ParseToken (c # s) = ParseToken s"
  by (auto simp: ParseToken_def token_step_def blank_def)

lemma ParseToken_blanks: "\<forall>c \<in> set ws. blank c \<Longrightarrow> ParseToken (ws @ s) = ParseToken s"
  by (induction ws) (auto simp: ParseToken_blank)

lemma ParseToken_special:
  "ParseToken (CHR '';'' # s) = (TOKEN_TYPE_STATEMENT_END, '';'', s)"
  "ParseToken (CHR ''{'' # s) = (TOKEN_TYPE_START_BLOCK, ''{'', s)"
  "ParseToken (CHR ''}'' # s) = (TOKEN_TYPE_END_BLOCK, ''}'', s)"
  by (simp_all add: ParseToken_def token_step_def)

lemma token_loop_normal:
  "\<forall>c \<in> set t. \<not> ends_normal c \<Longrightarrow> ends_normal d \<Longrightarrow>
   token_loop TOKEN_STATE_TOKEN_TYPE_NORMAL val (t @ d # s) = (TOKEN_TYPE_NORMAL, val @ t, d # s)"
  by (induction t arbitrary: val) (auto simp: token_step_def)

lemma token_loop_double:
  "QUOTE \<notin> set t \<Longrightarrow>
   token_loop TOKEN_STATE_DOUBLE_QUOTE val (t @ QUOTE # s) = (TOKEN_TYPE_NORMAL, val @ t @ [QUOTE], s)"
  by (induction t arbitrary: val) (auto simp: token_step_def)

lemma token_loop_single:
  "CHR 0x27 \<notin> set t \<Longrightarrow>
   token_loop TOKEN_STATE_SINGLE_QUOTE val (t @ CHR 0x27 # s) = (TOKEN_TYPE_NORMAL, val @ t @ [CHR 0x27], s)"
  by (induction t arbitrary: val) (auto simp: token_step_def)

lemma word_token_step:
  "word_token (c # t) \<Longrightarrow>
   token_step c (TOKEN_STATE_INITIAL_WHITESPACE, []) = Inl (TOKEN_STATE_TOKEN_TYPE_NORMAL, [c])"
  by (auto simp: word_token_def token_step_def ends_normal_def)

lemma ParseToken_word:
  assumes "word_token t" "ends_normal d"
  shows "ParseToken (t @ d # s) = (TOKEN_TYPE_NORMAL, t, d # s)"
proof -
  obtain c t' where t: "t = c # t'" using assms(1) by (cases t) (auto simp: word_token_def)
  then show ?thesis
    using assms word_token_step [of c t'] token_loop_normal [of t' d "[c]" s]
    by (auto simp: ParseToken_def word_token_def)
qed

lemma quoted_split:
  assumes "2 \<le> length t" "hd t = q" "last t = q"
  shows "t = q # butlast (tl t) @ [q]"
proof -
  obtain c t' where t: "t = c # t'" "t' \<noteq> []" using assms(1) by (cases t) (auto simp: Suc_le_eq)
  then show ?thesis using assms(2,3) append_butlast_last_id [of t'] by auto
qed

lemma ParseToken_double:
  "QUOTE \<notin> set u \<Longrightarrow> ParseToken ((QUOTE # u @ [QUOTE]) @ s) = (TOKEN_TYPE_NORMAL, QUOTE # u @ [QUOTE], s)"
  using token_loop_double [of u "[QUOTE]" s] by (simp add: ParseToken_def token_step_def)

lemma ParseToken_single:
  "CHR 0x27 \<notin> set u \<Longrightarrow>
   ParseToken ((CHR 0x27 # u @ [CHR 0x27]) @ s) = (TOKEN_TYPE_NORMAL, CHR 0x27 # u @ [CHR 0x27], s)"
  using token_loop_single [of u "[CHR 0x27]" s] by (simp add: ParseToken_def token_step_def)

lemma ParseToken_quoted:
  assumes "quoted_token t"
  shows "ParseToken (t @ s) = (TOKEN_TYPE_NORMAL, t, s)"
proof -
  obtain q where q: "q \<in> {QUOTE, CHR 0x27}" "2 \<le> length t" "hd t = q" "last t = q" "q \<notin> set (butlast (tl t))"
    using assms unfolding quoted_token_def by blast
  then have t: "t = q # butlast (tl t) @ [q]" by (intro quoted_split)
  have "ParseToken ((q # butlast (tl t) @ [q]) @ s) = (TOKEN_TYPE_NORMAL, q # butlast (tl t) @ [q], s)"
    using q(1,5) ParseToken_double [of "butlast (tl t)" s] ParseToken_single [of "butlast (tl t)" s] by blast
  then show ?thesis using t by metis
qed

lemma ParseToken_token:
  "token_wf t \<Longrightarrow> ends_normal d \<Longrightarrow> ParseToken (t @ d # s) = (TOKEN_TYPE_NORMAL, t, d # s)"
  by (auto simp: token_wf_def ParseToken_word ParseToken_quoted)

text \<open>A token never starts like a brace unless it is one.\<close>

lemma token_wf_first: "token_wf t \<Longrightarrow> \<exists>c u. t = c # u \<and> c \<noteq> CHR ''{'' \<and> c \<noteq> CHR ''}''"
  by (cases t) (auto simp: token_wf_def word_token_def quoted_token_def ends_normal_def)

subsection \<open>The loop on printed text\<close>

lemma config_loop_token:
  "ParseToken input = (ty, tok, rest) \<Longrightarrow> parse_token_step ty tok s = Inr (Inl s') \<Longrightarrow>
   config_loop s input = config_loop s' rest"
  by (subst config_loop.simps) simp

lemma config_loop_blanks: "\<forall>c \<in> set ws. blank c \<Longrightarrow> config_loop s (ws @ input) = config_loop s input"
  by (subst (1 2) config_loop.simps) (simp add: ParseToken_blanks)

lemma config_loop_blank: "blank c \<Longrightarrow> config_loop s (c # input) = config_loop s input"
  using config_loop_blanks [of "[c]"] by simp

lemma indent_blank: "c \<in> set (indent d) \<Longrightarrow> blank c"
  unfolding indent_def by (induction d) (auto simp: blank_def)

lemma join_tokens_Cons: "join_tokens (t # ts) = t @ concat (map (\<lambda>u. SP # u) ts)"
  by (induction ts arbitrary: t) auto

text \<open>States in which a statement may begin.\<close>

definition ready :: "parse_state \<Rightarrow> bool" where
  "ready s = (last_token_type s \<in> {TOKEN_TYPE_START, TOKEN_TYPE_STATEMENT_END, TOKEN_TYPE_START_BLOCK,
     TOKEN_TYPE_END_BLOCK} \<and> config_stack s \<noteq> [])"

lemma type_then_stack:
  "s\<lparr>last_token_type := ty, config_stack := st\<rparr> = s\<lparr>config_stack := st, last_token_type := ty\<rparr>"
  by simp

lemma first_token_step:
  assumes "ready s" "token_wf t" "config_stack s = cur # below"
  shows "parse_token_step TOKEN_TYPE_NORMAL t s =
    Inr (Inl (s\<lparr>config_stack := (cur @ [Statement [t] None]) # below, last_token_type := TOKEN_TYPE_NORMAL\<rparr>))"
  using assms token_wf_first [OF assms(2)]
  by (auto simp: parse_token_step_def ready_def new_statement_def push_token_def Let_def)

lemma next_token_step:
  assumes "last_token_type s = TOKEN_TYPE_NORMAL" "token_wf t" "config_stack s = (cur @ [Statement ts ch]) # below"
  shows "parse_token_step TOKEN_TYPE_NORMAL t s =
    Inr (Inl (s\<lparr>config_stack := (cur @ [Statement (ts @ [t]) ch]) # below\<rparr>))"
  using assms token_wf_first [OF assms(2)]
  by (auto simp: parse_token_step_def push_token_def Let_def)

lemma config_loop_more_tokens:
  assumes "last_token_type s = TOKEN_TYPE_NORMAL" "config_stack s = (cur @ [Statement us ch]) # below"
    "list_all token_wf ts" "ends_normal d"
  shows "config_loop s (concat (map (\<lambda>u. SP # u) ts) @ d # input) =
    config_loop (s\<lparr>config_stack := (cur @ [Statement (us @ ts) ch]) # below\<rparr>) (d # input)"
  using assms
proof (induction ts arbitrary: s us)
  case Nil
  then show ?case by (simp flip: Nil(2))
next
  case (Cons t ts)
  let ?rest = "concat (map (\<lambda>u. SP # u) ts) @ d # input"
  obtain e rest where e: "?rest = e # rest" "ends_normal e"
    using Cons.prems(4) by (cases ts) (auto simp: ends_normal_def)
  have "config_loop s (SP # t @ ?rest) = config_loop s (t @ e # rest)"
    by (simp add: config_loop_blank blank_def e)
  also have "\<dots> = config_loop (s\<lparr>config_stack := (cur @ [Statement (us @ [t]) ch]) # below\<rparr>) ?rest"
    unfolding e(1) using Cons.prems e(2)
    by (intro config_loop_token [OF ParseToken_token]) (auto intro: next_token_step)
  finally show ?case using Cons by simp
qed

lemma config_loop_tokens:
  assumes "ready s" "config_stack s = cur # below" "ts \<noteq> []" "list_all token_wf ts" "ends_normal d"
  shows "config_loop s (indent n @ join_tokens ts @ d # input) =
    config_loop (s\<lparr>config_stack := (cur @ [Statement ts None]) # below, last_token_type := TOKEN_TYPE_NORMAL\<rparr>)
      (d # input)"
proof -
  obtain t us where ts: "ts = t # us" using assms(3) by (cases ts) auto
  let ?s = "s\<lparr>config_stack := (cur @ [Statement [t] None]) # below, last_token_type := TOKEN_TYPE_NORMAL\<rparr>"
  let ?rest = "concat (map (\<lambda>u. SP # u) us) @ d # input"
  obtain e rest where e: "?rest = e # rest" "ends_normal e"
    using assms(5) by (cases us) (auto simp: ends_normal_def)
  have "config_loop s (indent n @ join_tokens ts @ d # input) = config_loop s (t @ e # rest)"
    using e(1) by (simp add: config_loop_blanks indent_blank ts join_tokens_Cons)
  also have "\<dots> = config_loop ?s (e # rest)"
    using assms ts e(2) by (intro config_loop_token [OF ParseToken_token]) (auto intro: first_token_step)
  also have "\<dots> = config_loop (?s\<lparr>config_stack := (cur @ [Statement ts None]) # below\<rparr>) (d # input)"
    unfolding e(1) [symmetric] using config_loop_more_tokens [of ?s cur "[t]" None below us d input] assms ts
    by simp
  finally show ?thesis by (simp add: type_then_stack)
qed

subsection \<open>Statements and blocks\<close>

text \<open>The state after a list of statements has been read into the open block.\<close>

definition add_stmts :: "parse_state \<Rightarrow> NginxConfigStatement list \<Rightarrow> NginxConfig list \<Rightarrow> TokenType \<Rightarrow> parse_state" where
  "add_stmts s ss bs ty = s\<lparr>config_stack := (hd (config_stack s) @ ss) # tl (config_stack s),
     blocks_content := blocks_content s @ bs, last_token_type := ty\<rparr>"

definition end_type :: "NginxConfigStatement \<Rightarrow> TokenType" where
  "end_type st = (if child_block st = None then TOKEN_TYPE_STATEMENT_END else TOKEN_TYPE_END_BLOCK)"

definition end_types :: "TokenType \<Rightarrow> NginxConfigStatement list \<Rightarrow> TokenType" where
  "end_types ty ss = (if ss = [] then ty else end_type (last ss))"

lemma ready_add_stmts [simp]: "ready s \<Longrightarrow> ready (add_stmts s ss bs (end_types (last_token_type s) ss'))"
  by (auto simp: ready_def add_stmts_def end_types_def end_type_def)

lemma config_loop_plain_statement:
  assumes "ready s" "ts \<noteq> []" "list_all token_wf ts"
  shows "config_loop s (stmt_ToString n (Statement ts None) @ input) =
    config_loop (add_stmts s [Statement ts None] [] TOKEN_TYPE_STATEMENT_END) input"
proof -
  obtain cur below where st: "config_stack s = cur # below"
    using assms(1) by (cases "config_stack s") (auto simp: ready_def)
  let ?s = "s\<lparr>config_stack := (cur @ [Statement ts None]) # below, last_token_type := TOKEN_TYPE_NORMAL\<rparr>"
  have "config_loop s (stmt_ToString n (Statement ts None) @ input) = config_loop ?s (CHR '';'' # LF # input)"
    using config_loop_tokens [OF assms(1) st assms(2,3), of "CHR '';''" n "LF # input"]
    by (simp add: ends_normal_def)
  also have "\<dots> = config_loop (?s\<lparr>last_token_type := TOKEN_TYPE_STATEMENT_END\<rparr>) (LF # input)"
    by (rule config_loop_token [OF ParseToken_special(1)]) (simp add: parse_token_step_def)
  finally show ?thesis by (simp add: config_loop_blank blank_def add_stmts_def st)
qed

lemma config_loop_open:
  assumes "ready s" "config_stack s = cur # below" "ts \<noteq> []" "list_all token_wf ts"
  shows "config_loop s (indent n @ join_tokens ts @ '' {'' @ LF # input) =
    config_loop (s\<lparr>braces_stack := braces_stack s + 1,
      config_stack := [] # (cur @ [Statement ts None]) # below, last_token_type := TOKEN_TYPE_START_BLOCK\<rparr>) input"
proof -
  let ?s = "s\<lparr>config_stack := (cur @ [Statement ts None]) # below, last_token_type := TOKEN_TYPE_NORMAL\<rparr>"
  have "config_loop s (indent n @ join_tokens ts @ '' {'' @ LF # input) = config_loop ?s (SP # CHR ''{'' # LF # input)"
    using config_loop_tokens [OF assms, of SP n "CHR ''{'' # LF # input"] by (simp add: ends_normal_def)
  also have "\<dots> = config_loop ?s (CHR ''{'' # LF # input)"
    by (simp add: config_loop_blank blank_def)
  also have "\<dots> = config_loop (?s\<lparr>braces_stack := braces_stack s + 1,
      config_stack := [] # (cur @ [Statement ts None]) # below, last_token_type := TOKEN_TYPE_START_BLOCK\<rparr>) (LF # input)"
    by (rule config_loop_token [OF ParseToken_special(2)]) (simp add: parse_token_step_def open_block_def)
  finally show ?thesis by (simp add: config_loop_blank blank_def)
qed

lemma config_loop_close:
  assumes "config_stack s = ss # (cur @ [Statement ts ch]) # below" "braces_stack s = Suc k"
    "last_token_type s \<in> {TOKEN_TYPE_STATEMENT_END, TOKEN_TYPE_START_BLOCK, TOKEN_TYPE_END_BLOCK}"
  shows "config_loop s (indent n @ ''}'' @ LF # input) =
    config_loop (s\<lparr>braces_stack := k, config_stack := (cur @ [Statement ts (Some (Config ss))]) # below,
      blocks_content := blocks_content s @ [Config ss], last_token_type := TOKEN_TYPE_END_BLOCK\<rparr>) input"
proof -
  have "config_loop s (indent n @ ''}'' @ LF # input) = config_loop s (CHR ''}'' # LF # input)"
    by (simp add: config_loop_blanks indent_blank)
  also have "\<dots> = config_loop (s\<lparr>braces_stack := k, config_stack := (cur @ [Statement ts (Some (Config ss))]) # below,
      blocks_content := blocks_content s @ [Config ss], last_token_type := TOKEN_TYPE_END_BLOCK\<rparr>) (LF # input)"
    by (rule config_loop_token [OF ParseToken_special(3)])
      (use assms in \<open>auto simp: parse_token_step_def set_child_def Let_def\<close>)
  finally show ?thesis by (simp add: config_loop_blank blank_def)
qed

lemma config_loop_printed:
  "stmt_wf st \<Longrightarrow> ready s \<Longrightarrow> config_loop s (stmt_ToString n st @ input) =
     config_loop (add_stmts s [st] (stmt_blocks st) (end_type st)) input"
  "config_wf cfg \<Longrightarrow> ready s \<Longrightarrow> config_loop s (config_ToString n cfg @ input) =
     config_loop (add_stmts s (statements cfg) (config_blocks cfg)
       (end_types (last_token_type s) (statements cfg))) input"
proof (induction n st and n cfg arbitrary: s input and s input rule: stmt_ToString_config_ToString.induct)
  case (1 n ts child)
  show ?case
  proof (cases child)
    case None
    with 1 show ?thesis using config_loop_plain_statement by (simp add: end_type_def)
  next
    case (Some b)
    obtain cur below where st: "config_stack s = cur # below"
      using "1.prems"(2) by (cases "config_stack s") (auto simp: ready_def)
    let ?s1 = "s\<lparr>braces_stack := braces_stack s + 1, config_stack := [] # (cur @ [Statement ts None]) # below,
        last_token_type := TOKEN_TYPE_START_BLOCK\<rparr>"
    let ?s2 = "add_stmts ?s1 (statements b) (config_blocks b) (end_types TOKEN_TYPE_START_BLOCK (statements b))"
    let ?tail = "indent n @ ''}'' @ LF # input"
    have "config_loop s (stmt_ToString n (Statement ts child) @ input) =
        config_loop ?s1 (config_ToString (Suc n) b @ ?tail)"
      using config_loop_open [OF "1.prems"(2) st, of ts n "config_ToString (Suc n) b @ ?tail"] "1.prems"(1) Some
      by simp
    also have "\<dots> = config_loop ?s2 ?tail"
      using "1.IH" [OF Some, of ?s1 ?tail] "1.prems" Some by (simp add: ready_def)
    also have "\<dots> = config_loop (add_stmts s [Statement ts (Some b)] (config_blocks b @ [b]) TOKEN_TYPE_END_BLOCK) input"
      using config_loop_close [of ?s2 "statements b" cur ts None below "braces_stack s" n input]
      by (auto simp: add_stmts_def st end_types_def end_type_def)
    finally show ?thesis using Some by (simp add: end_type_def)
  qed
next
  case (2 n ss)
  show ?case using 2
  proof (induction ss arbitrary: s input)
    case Nil
    then show ?case by (auto simp: add_stmts_def end_types_def ready_def)
  next
    case (Cons st ss)
    let ?s1 = "add_stmts s [st] (stmt_blocks st) (end_type st)"
    have r: "ready ?s1" using Cons.prems by (auto simp: ready_def add_stmts_def end_type_def)
    have "config_loop s (stmt_ToString n st @ config_ToString n (Config ss) @ input) =
        config_loop ?s1 (config_ToString n (Config ss) @ input)"
      using Cons.prems by simp
    also have "\<dots> = config_loop (add_stmts ?s1 ss (config_blocks (Config ss)) (end_types (last_token_type ?s1) ss)) input"
      using Cons.IH [of ?s1 input] Cons.prems r by simp
    finally show ?case by (simp add: add_stmts_def end_types_def)
  qed
qed

subsection \<open>The round trip\<close>

lemma config_loop_eof:
  assumes "ParseToken input = (TOKEN_TYPE_EOF, w, [])" "w = [] \<or> hd w \<notin> {CHR ''{'', CHR ''}''}"
    "config_stack s = [ss]" "braces_stack s = 0"
    "last_token_type s \<in> {TOKEN_TYPE_START, TOKEN_TYPE_STATEMENT_END, TOKEN_TYPE_END_BLOCK}"
  shows "config_loop s input = Inr (s, Parsed)"
  using assms by (subst config_loop.simps) (auto simp: parse_token_step_def Let_def split: list.splits)

lemma Parse_printed:
  assumes "config_wf cfg" "ParseToken w = (TOKEN_TYPE_EOF, v, [])" "v = [] \<or> hd v \<notin> {CHR ''{'', CHR ''}''}"
  shows "Parse_config (config_ToString n cfg @ w) (Config []) [] = Inr (True, cfg, config_blocks cfg)"
proof -
  let ?s = "initial_state [] []"
  let ?s' = "add_stmts ?s (statements cfg) (config_blocks cfg) (end_types TOKEN_TYPE_START (statements cfg))"
  have "config_loop ?s (config_ToString n cfg @ w) = config_loop ?s' w"
    using config_loop_printed(2) [OF assms(1), of ?s n w] by (simp add: ready_def initial_state_def)
  also have "\<dots> = Inr (?s', Parsed)"
    using assms(2,3)
    by (rule config_loop_eof) (auto simp: add_stmts_def initial_state_def end_types_def end_type_def)
  finally show ?thesis by (simp add: Parse_config_def add_stmts_def initial_state_def)
qed

text \<open>
  \<^bold>\<open>C6.\<close> Parsing inverts printing: the text \<^verbatim>\<open>ToString\<close> prints for a configuration whose statements
  have at least one token, each a word or a quoted string, nested to any depth, is accepted; it
  yields that configuration, and the list of block contents in the order the blocks are closed.
\<close>

theorem Parse_inverts_ToString:
  assumes "config_wf cfg"
  shows "Parse_config (config_ToString n cfg) (Config []) [] = Inr (True, cfg, config_blocks cfg)"
  using Parse_printed [OF assms, of "[]" "[]" n] by simp

theorem Parse_inverts_ToString_witness:
  "Parse_config (config_ToString 0 (Config [Statement [''port'', ''80''] None,
       Statement [''location'', [QUOTE] @ ''/a'' @ [QUOTE], ''EchoHandler''] (Some (Config []))])) (Config []) [] =
   Inr (True, Config [Statement [''port'', ''80''] None,
       Statement [''location'', [QUOTE] @ ''/a'' @ [QUOTE], ''EchoHandler''] (Some (Config []))],
     config_blocks (Config [Statement [''port'', ''80''] None,
       Statement [''location'', [QUOTE] @ ''/a'' @ [QUOTE], ''EchoHandler''] (Some (Config []))]))"
  by (rule Parse_inverts_ToString) code_simp

text \<open>
  A configuration text is accepted even when it ends in an unterminated statement: a word
  after the last complete statement is read together with the end of the file and dropped, and the
  result is that of the text without it. (The header declares that \<^verbatim>\<open>Parse\<close> returns true iff the
  file is valid.)
\<close>

theorem Parse_drops_trailing_word:
  assumes "config_wf cfg" "word_token w"
  shows "Parse_config (config_ToString n cfg @ w) (Config []) [] = Inr (True, cfg, config_blocks cfg)"
proof (rule Parse_printed [OF assms(1)])
  obtain c t where w: "w = c # t" using assms(2) by (cases w) (auto simp: word_token_def)
  have "token_loop TOKEN_STATE_TOKEN_TYPE_NORMAL val t = (TOKEN_TYPE_EOF, val @ t, [])"
    if "\<forall>c \<in> set t. \<not> ends_normal c" for val t
    using that by (induction t arbitrary: val) (auto simp: token_step_def)
  then show "ParseToken w = (TOKEN_TYPE_EOF, w, [])"
    using w assms(2) word_token_step [of c t] by (auto simp: ParseToken_def word_token_def)
  show "w = [] \<or> hd w \<notin> {CHR ''{'', CHR ''}''}"
    using assms(2) w by (auto simp: word_token_def ends_normal_def)
qed

theorem Parse_drops_trailing_word_witness:
  "Parse_config (config_ToString 0 (Config [Statement [''port'', ''80''] None]) @ ''junk'') (Config []) [] =
   Inr (True, Config [Statement [''port'', ''80''] None], config_blocks (Config [Statement [''port'', ''80''] None]))"
  by (rule Parse_drops_trailing_word) code_simp+

section \<open>Safety of the parser\<close>

definition first_char :: "string \<Rightarrow> char" where
  "first_char t = (case t of [] \<Rightarrow> NUL | c # _ \<Rightarrow> c)"

lemma first_char_simps [simp]: "first_char [] = NUL" "first_char (c # cs) = c"
  by (simp_all add: first_char_def)

lemma first_char_append [simp]: "t \<noteq> [] \<Longrightarrow> first_char (t @ u) = first_char t"
  by (cases t) simp_all

text \<open>Only the brace tokens start with a brace, so counting first characters counts blocks.\<close>

definition value_inv :: "TokenParserState \<times> string \<Rightarrow> bool" where
  "value_inv sv =
     (case sv of (state, val) \<Rightarrow>
        if state = TOKEN_STATE_INITIAL_WHITESPACE then val = []
        else val \<noteq> [] \<and> first_char val \<notin> {CHR ''{'', CHR ''}''})"

lemma token_step_value_inv: "value_inv sv \<Longrightarrow> token_step c sv = Inl sv' \<Longrightarrow> value_inv sv'"
  by (cases sv; cases "fst sv") (auto simp: value_inv_def token_step_def split: if_splits)

definition brace_types :: "TokenType \<Rightarrow> string \<Rightarrow> bool" where
  "brace_types ty tok =
     ((first_char tok = CHR ''{'' \<longleftrightarrow> ty = TOKEN_TYPE_START_BLOCK) \<and>
      (first_char tok = CHR ''}'' \<longleftrightarrow> ty = TOKEN_TYPE_END_BLOCK))"

lemma token_step_brace: "value_inv sv \<Longrightarrow> token_step c sv = Inr (ty, tok, u) \<Longrightarrow> brace_types ty tok"
  by (cases sv; cases "fst sv") (auto simp: value_inv_def token_step_def brace_types_def split: if_splits)

lemma token_loop_brace:
  "value_inv (state, val) \<Longrightarrow> token_loop state val s = (ty, tok, rest) \<Longrightarrow> brace_types ty tok"
proof (induction state val s rule: token_loop.induct)
  case (1 state val)
  then show ?case by (auto simp: value_inv_def brace_types_def split: if_splits)
next
  case (2 state val c cs)
  show ?case
  proof (cases "token_step c (state, val)")
    case (Inl sv)
    with "2.prems"(1) have "value_inv sv" by (rule token_step_value_inv)
    with Inl 2 show ?thesis by (cases sv) auto
  next
    case (Inr out)
    with 2 show ?thesis by (cases out) (auto intro: token_step_brace split: if_splits)
  qed
qed

lemma ParseToken_brace: "ParseToken s = (ty, tok, rest) \<Longrightarrow> brace_types ty tok"
  unfolding ParseToken_def by (rule token_loop_brace) (simp_all add: value_inv_def)

text \<open>
  The invariant of the loop: one brace is open for every configuration on the stack but the
  lowest, the statements that own the open blocks exist, and after a word the open block has a
  statement to extend.
\<close>

definition stack_inv :: "parse_state \<Rightarrow> bool" where
  "stack_inv s =
     (length (config_stack s) = braces_stack s + 1 \<and> (\<forall>ss \<in> set (tl (config_stack s)). ss \<noteq> []) \<and>
      (last_token_type s = TOKEN_TYPE_NORMAL \<longrightarrow> hd (config_stack s) \<noteq> []) \<and>
      last_token_type s \<notin> {TOKEN_TYPE_COMMENT, TOKEN_TYPE_EOF, TOKEN_TYPE_ERROR})"

lemma stack_inv_initial: "stack_inv (initial_state ss bs)"
  by (simp add: stack_inv_def initial_state_def)

lemma stack_cases:
  assumes "stack_inv s"
  obtains cur below where "config_stack s = cur # below" "length below = braces_stack s" "\<forall>ss \<in> set below. ss \<noteq> []"
  using assms by (cases "config_stack s") (auto simp: stack_inv_def)

lemma push_token_last: "cur \<noteq> [] \<Longrightarrow> \<exists>st. push_token t (cur # below) = Inr (st # below) \<and> st \<noteq> []"
  by (cases "last cur") (auto simp: push_token_def)

text \<open>Every token, of whatever type, is handled without a fault; the stack stays in step.\<close>

lemma step_inv:
  assumes "stack_inv s" "brace_types ty tok"
  shows "(\<exists>s'. parse_token_step ty tok s = Inr (Inl s') \<and> stack_inv s') \<or>
    (\<exists>s' v. parse_token_step ty tok s = Inr (Inr (s', v)) \<and> v \<noteq> Too_Many_Right \<and>
       (v = Parsed \<longrightarrow> braces_stack s' = 0 \<and> length (config_stack s') = 1))"
proof -
  obtain cur below where st: "config_stack s = cur # below" "length below = braces_stack s"
      "\<forall>ss \<in> set below. ss \<noteq> []"
    using assms(1) by (rule stack_cases)
  note step = parse_token_step_def [of ty tok s, folded first_char_def]
  show ?thesis
  proof (cases ty)
    case TOKEN_TYPE_NORMAL
    have b: "first_char tok \<noteq> CHR ''{''" "first_char tok \<noteq> CHR ''}''"
      using assms(2) TOKEN_TYPE_NORMAL by (auto simp: brace_types_def)
    have lt: "last_token_type s \<in> {TOKEN_TYPE_START, TOKEN_TYPE_STATEMENT_END, TOKEN_TYPE_START_BLOCK,
        TOKEN_TYPE_END_BLOCK, TOKEN_TYPE_NORMAL}"
      using assms(1) by (cases "last_token_type s") (auto simp: stack_inv_def)
    have "\<exists>cur'. push_token tok (if last_token_type s \<noteq> TOKEN_TYPE_NORMAL
        then new_statement (config_stack s) else config_stack s) = Inr (cur' # below) \<and> cur' \<noteq> []"
      using push_token_last [of cur tok below] push_token_last [of "cur @ [Statement [] None]" tok below] assms(1) st
      by (cases "last_token_type s = TOKEN_TYPE_NORMAL") (simp_all add: new_statement_def stack_inv_def)
    then obtain cur' where cur': "push_token tok (if last_token_type s \<noteq> TOKEN_TYPE_NORMAL
        then new_statement (config_stack s) else config_stack s) = Inr (cur' # below)" "cur' \<noteq> []" by blast
    show ?thesis
      unfolding step using TOKEN_TYPE_NORMAL b lt cur' st assms(1) by (auto simp: Let_def stack_inv_def)
  next
    case TOKEN_TYPE_START_BLOCK
    then have b: "first_char tok = CHR ''{''" using assms(2) by (simp add: brace_types_def)
    show ?thesis
      unfolding step using TOKEN_TYPE_START_BLOCK b st assms(1)
      by (cases "last_token_type s = TOKEN_TYPE_NORMAL") (auto simp: Let_def stack_inv_def open_block_def)
  next
    case TOKEN_TYPE_END_BLOCK
    then have b: "first_char tok = CHR ''}''" using assms(2) by (simp add: brace_types_def)
    show ?thesis
    proof (cases below)
      case Nil
      then show ?thesis unfolding step using TOKEN_TYPE_END_BLOCK b st by (simp add: Let_def)
    next
      case (Cons par rest)
      then show ?thesis unfolding step using TOKEN_TYPE_END_BLOCK b st assms(1)
        by (auto simp: Let_def stack_inv_def set_child_def)
    qed
  qed (unfold step, use assms st in \<open>auto simp: brace_types_def stack_inv_def Let_def\<close>)
qed

lemma config_loop_total:
  "stack_inv s0 \<Longrightarrow> \<exists>s v. config_loop s0 input = Inr (s, v) \<and> v \<noteq> Too_Many_Right \<and>
     (v = Parsed \<longrightarrow> braces_stack s = 0 \<and> length (config_stack s) = 1)"
proof (induction s0 input rule: config_loop.induct)
  case (1 s input)
  obtain ty tok rest where tok: "ParseToken input = (ty, tok, rest)" by (cases "ParseToken input")
  then have "brace_types ty tok" by (rule ParseToken_brace)
  with "1.prems" consider
      (go) s' where "parse_token_step ty tok s = Inr (Inl s')" "stack_inv s'"
    | (stop) s' v where "parse_token_step ty tok s = Inr (Inr (s', v))" "v \<noteq> Too_Many_Right"
        "v = Parsed \<longrightarrow> braces_stack s' = 0 \<and> length (config_stack s') = 1"
    using step_inv by blast
  then show ?case
  proof cases
    case go
    with "1.IH" tok show ?thesis by (subst config_loop.simps) simp
  next
    case stop
    with tok show ?thesis by (subst config_loop.simps) simp
  qed
qed

text \<open>
  \<^bold>\<open>C22.\<close> On every input the parser returns: no statement or block pointer it follows is missing. The
  verdict "too many right braces" never occurs (an unmatched right brace is caught as a bad
  transition before), and where the parser accepts, every block is closed.
\<close>

theorem config_loop_safe:
  "\<exists>s v. config_loop (initial_state ss bs) input = Inr (s, v) \<and> v \<noteq> Too_Many_Right \<and>
     (v = Parsed \<longrightarrow> braces_stack s = 0 \<and> length (config_stack s) = 1)"
  using config_loop_total [OF stack_inv_initial] by blast

theorem config_loop_safe_witness:
  "\<exists>s. config_loop (initial_state [] []) ''a { b; }'' = Inr (s, Parsed) \<and>
     braces_stack s = 0 \<and> length (config_stack s) = 1"
proof -
  have "map_sum id snd (config_loop (initial_state [] []) ''a { b; }'') = Inr Parsed" by code_simp
  then show ?thesis using config_loop_safe [of "[]" "[]" "''a { b; }''"] by auto
qed

lemma Parse_config_completes: "completes (Parse_config input config blocks)"
  using config_loop_total [OF stack_inv_initial, of "statements config" blocks input]
  by (auto simp: Parse_config_def)

end
