(* ===== verification/Port.thy ===== *)
theory Port
  imports Config_Parser
begin

text \<open>
  The reader of the server's settings, \<^verbatim>\<open>src/port.cc\<close>: the port number, the file aliases and the
  blocks that name the request handlers. Each operation opens the configuration file and scans it
  token by token; a file that cannot be opened reads as an empty one. The two inner scans have no
  check for the end of the file and may not return; they are partial functions, and \<^const>\<open>None\<close> is
  "does not return".
\<close>

section \<open>The object\<close>

record config_block =
  cb_prefix :: string
  cb_handler_type :: string
  cb_content :: NginxConfig

record port =
  portNum :: int
  fileMap :: "string list"
  port_config_blocks :: "config_block list"

definition file_text :: "string option \<Rightarrow> string" where
  "file_text file = (case file of None \<Rightarrow> [] | Some s \<Rightarrow> s)"

definition isValid :: "int \<Rightarrow> bool" where
  "isValid port_num = (\<not> (port_num < 1 \<or> port_num > 65535))"

definition isNumeric :: "string \<Rightarrow> bool" where
  "isNumeric port_num = list_all isdigit port_num"

definition setPortNum :: "int \<Rightarrow> port \<Rightarrow> port" where
  "setPortNum n p = p\<lparr>portNum := n\<rparr>"

definition getPortNum :: "port \<Rightarrow> int" where
  "getPortNum p = portNum p"

definition setFilePath :: "string \<Rightarrow> string \<Rightarrow> port \<Rightarrow> port" where
  "setFilePath alias path p = p\<lparr>fileMap := fileMap p @ [alias, path]\<rparr>"

definition getConfigBlocks :: "port \<Rightarrow> config_block list" where
  "getConfigBlocks p = port_config_blocks p"

section \<open>The sequence of tokens\<close>

lemma token_loop_value:
  "value_inv (state, val) \<Longrightarrow> token_loop state val s = (ty, [], rest) \<Longrightarrow> rest = []"
proof (induction state val s rule: token_loop.induct)
  case (1 state val)
  then show ?case by (auto split: if_splits)
next
  case (2 state val c cs)
  show ?case
  proof (cases "token_step c (state, val)")
    case (Inl sv)
    with "2.prems"(1) have "value_inv sv" by (rule token_step_value_inv)
    with Inl 2 show ?thesis by (cases sv) auto
  next
    case (Inr out)
    with "2.prems" show ?thesis
      by (cases state) (auto simp: token_step_def value_inv_def split: if_splits)
  qed
qed

lemma getToken_empty: "getToken s = ([], rest) \<Longrightarrow> rest = []"
  using token_loop_value [of TOKEN_STATE_INITIAL_WHITESPACE "[]" s]
  by (auto simp: getToken_def ParseToken_def value_inv_def split: prod.splits)

lemma getToken_Nil [simp]: "getToken [] = ([], [])"
  by (simp add: getToken_def)

lemma getToken_shorter: "getToken s = (t, rest) \<Longrightarrow> t \<noteq> [] \<Longrightarrow> length rest < length s"
  using ParseToken_shorter [of s] by (cases "s = []") (auto simp: getToken_def split: prod.splits)

lemma getToken_le: "getToken s = (t, rest) \<Longrightarrow> length rest \<le> length s"
  using getToken_shorter [of s t rest] getToken_empty [of s rest] by (cases "t = []") auto

text \<open>What repeated calls of \<^verbatim>\<open>getToken\<close> return until the first empty token.\<close>

function all_tokens :: "string \<Rightarrow> string list" where
  "all_tokens s = (case getToken s of (t, rest) \<Rightarrow> if t = [] then [] else t # all_tokens rest)"
  by pat_completeness auto
termination
  by (relation "measure length") (auto dest: getToken_shorter [OF sym])

declare all_tokens.simps [simp del]

lemma all_tokens_cases:
  assumes "getToken s = (t, rest)"
  shows "all_tokens s = (if t = [] then [] else t # all_tokens rest)"
  using assms by (subst all_tokens.simps) simp

lemma all_tokens_Nil [simp]: "all_tokens [] = []"
  by (subst all_tokens.simps) simp

section \<open>The port number\<close>

text \<open>The loop of \<open>checkPortNum\<close>: every token that follows the token \<^verbatim>\<open>port\<close> is queued.\<close>

function port_scan :: "string \<Rightarrow> string \<Rightarrow> string \<Rightarrow> string list \<Rightarrow> string list" where
  "port_scan last_token token input port_queue =
     (if token = [] then port_queue
      else case getToken input of (token', input') \<Rightarrow>
        port_scan token token' input' (if last_token = ''port'' then port_queue @ [token] else port_queue))"
  by pat_completeness auto
termination
  by (relation "measure (\<lambda>(l, t, input, q). 2 * length input + (if t = [] then 0 else 1))")
    (auto dest: getToken_shorter [OF sym] getToken_le [OF sym])

declare port_scan.simps [simp del]

definition checkPortNum :: "string option \<Rightarrow> port \<Rightarrow> (bool \<times> port) outcome" where
  "checkPortNum file p =
     (case getToken (file_text file) of (token, input) \<Rightarrow>
        case port_scan [] token input [] of
          [] \<Rightarrow> Inr (False, p)
        | first_port # _ \<Rightarrow>
            if \<not> isNumeric first_port then Inr (False, p)
            else bind_out (stoi first_port)
                   (\<lambda>n. if \<not> isValid n then Inr (False, p) else Inr (True, setPortNum n p)))"

section \<open>The file aliases\<close>

text \<open>\<^verbatim>\<open>while (token != ";") { push(token); token = getToken(); }\<close>\<close>

partial_function (option) collect_until :: "string \<Rightarrow> string \<Rightarrow> string \<Rightarrow> string list \<Rightarrow> (string list \<times> string) option" where
  "collect_until stop token input queue =
     (if token = stop then Some (queue, input)
      else case getToken input of (token', input') \<Rightarrow> collect_until stop token' input' (queue @ [token]))"

partial_function (option) alias_scan :: "string \<Rightarrow> string \<Rightarrow> string \<Rightarrow> string list \<Rightarrow> string list option" where
  "alias_scan last_token token input queue =
     (if token = [] then Some queue
      else if last_token = ''location'' then
        (case getToken input of (token1, input1) \<Rightarrow>
           if token1 = ''{'' then
             (case getToken input1 of (token2, input2) \<Rightarrow>
                Option.bind (collect_until '';'' token2 input2 (queue @ [token])) (\<lambda>(queue', input3).
                  case getToken input3 of (token4, input4) \<Rightarrow> alias_scan '';'' token4 input4 queue'))
           else
             (case getToken input1 of (token4, input4) \<Rightarrow> alias_scan token1 token4 input4 (queue @ [token])))
      else
        (case getToken input of (token4, input4) \<Rightarrow> alias_scan token token4 input4 queue))"

text \<open>The loop that takes alias and path out of each group of three.\<close>

fun store_aliases :: "string list \<Rightarrow> port \<Rightarrow> port" where
  "store_aliases (first_path # _ # locationPath # queue) p =
     store_aliases queue (setFilePath first_path locationPath p)"
| "store_aliases _ p = p"

definition checkFilePath :: "string option \<Rightarrow> port \<Rightarrow> (bool \<times> port) option" where
  "checkFilePath file p =
     (case getToken (file_text file) of (token, input) \<Rightarrow>
        Option.bind (alias_scan [] token input []) (\<lambda>queue.
          if queue = [] \<or> length queue mod 3 \<noteq> 0 then Some (False, p)
          else Some (True, store_aliases queue p)))"

section \<open>The handler blocks\<close>

definition known_handlers :: "string list" where
  "known_handlers = [''EchoHandler'', ''StatusHandler'', ''ErrorHandler'', ''HealthHandler'',
     ''ProxyHandler'', ''CacheHandler'']"

text \<open>\<^verbatim>\<open>while (token != stop) token = getToken();\<close> then the rest of the input.\<close>

partial_function (option) skip_to :: "string \<Rightarrow> string \<Rightarrow> string \<Rightarrow> string option" where
  "skip_to stop token input =
     (if token = stop then Some input
      else case getToken input of (token', input') \<Rightarrow> skip_to stop token' input')"

text \<open>
  The loop over the tokens: a block header is recorded where the handler type is known, or where
  an opening brace follows an unknown type.
\<close>

partial_function (option) block_scan :: "string \<Rightarrow> string \<Rightarrow> string \<Rightarrow> config_block list \<Rightarrow> config_block list option" where
  "block_scan last_token token input blocks =
     (if token = [] then Some blocks
      else if last_token = ''location'' then
        (case getToken input of (token1, input1) \<Rightarrow>
           let block = \<lparr>cb_prefix = token, cb_handler_type = token1, cb_content = Config []\<rparr> in
           if token1 \<in> set known_handlers then
             Option.bind (skip_to ''}'' token1 input1) (\<lambda>input2.
               case getToken input2 of (token4, input4) \<Rightarrow> block_scan ''}'' token4 input4 (blocks @ [block]))
           else
             (case getToken input1 of (token2, input2) \<Rightarrow>
                if token2 = ''{'' then
                  (case getToken input2 of (token3, input3) \<Rightarrow>
                     Option.bind (skip_to '';'' token3 input3) (\<lambda>input5.
                       case getToken input5 of (token4, input4) \<Rightarrow> block_scan '';'' token4 input4 (blocks @ [block])))
                else
                  (case getToken input2 of (token4, input4) \<Rightarrow> block_scan token2 token4 input4 blocks)))
      else
        (case getToken input of (token4, input4) \<Rightarrow> block_scan token token4 input4 blocks))"

text \<open>\<^verbatim>\<open>config_blocks[i].content = blocks[i]\<close> for every \<open>i < blocks.size()\<close>: undefined past the end.\<close>

definition assign_contents :: "NginxConfig list \<Rightarrow> config_block list \<Rightarrow> config_block list outcome" where
  "assign_contents contents blocks =
     (if length blocks < length contents then Inl Undefined_Behaviour
      else Inr (map2 (\<lambda>b c. b\<lparr>cb_content := c\<rparr>) (take (length contents) blocks) contents
                @ drop (length contents) blocks))"

definition setConfigBlocks :: "string option \<Rightarrow> NginxConfig \<Rightarrow> port \<Rightarrow>
    (bool \<times> NginxConfig \<times> port) outcome option" where
  "setConfigBlocks file config p =
     (case Parse_file file config [] of
        Inl e \<Rightarrow> Some (Inl e)
      | Inr (_, config', contents) \<Rightarrow>
          (case getToken (file_text file) of (token, input) \<Rightarrow>
             map_option (\<lambda>blocks.
                 bind_out (assign_contents contents blocks)
                   (\<lambda>bs. Inr (True, config', p\<lparr>port_config_blocks := bs\<rparr>)))
               (block_scan [] token input (port_config_blocks p))))"

section \<open>The scans as functions of the token sequence\<close>

text \<open>The tokens a loop still has to look at: the one in hand and those the input yields.\<close>

definition cur_tokens :: "string \<Rightarrow> string \<Rightarrow> string list" where
  "cur_tokens t input = (if t = [] then [] else t # all_tokens input)"

lemma cur_tokens_getToken: "getToken s = (t, rest) \<Longrightarrow> cur_tokens t rest = all_tokens s"
  by (simp add: cur_tokens_def all_tokens_cases)

lemma all_tokens_nonempty: "t \<in> set (all_tokens s) \<Longrightarrow> t \<noteq> []"
proof (induction s rule: all_tokens.induct)
  case (1 s)
  obtain u rest where u: "getToken s = (u, rest)" by (cases "getToken s")
  with 1 show ?case by (auto simp: all_tokens_cases [OF u] split: if_splits)
qed

subsection \<open>The port number\<close>

fun port_followers :: "string \<Rightarrow> string list \<Rightarrow> string list" where
  "port_followers last_token [] = []"
| "port_followers last_token (t # ts) =
     (if last_token = ''port'' then t # port_followers t ts else port_followers t ts)"

lemma port_scan_tokens: "port_scan l t input q = q @ port_followers l (cur_tokens t input)"
proof (induction l t input q rule: port_scan.induct)
  case (1 l t input q)
  obtain t' input' where t': "getToken input = (t', input')" by (cases "getToken input")
  show ?case
  proof (cases "t = []")
    case True
    then show ?thesis by (subst port_scan.simps) (simp add: cur_tokens_def)
  next
    case False
    with 1 [OF False t' [symmetric]] t' show ?thesis
      by (simp add: port_scan.simps [of l t] cur_tokens_getToken) (simp add: cur_tokens_def)
  qed
qed

lemma port_followers_subset: "set (port_followers l ts) \<subseteq> set ts"
  by (induction l ts rule: port_followers.induct) auto

lemma checkPortNum_none:
  assumes "port_followers [] (all_tokens (file_text file)) = []"
  shows "checkPortNum file p = Inr (False, p)"
  using assms by (cases "getToken (file_text file)") (simp add: checkPortNum_def port_scan_tokens cur_tokens_getToken)

lemma checkPortNum_first:
  assumes f: "port_followers [] (all_tokens (file_text file)) = f # fs"
  shows "checkPortNum file p =
     (if list_all isdigit f \<and> 2 ^ 31 \<le> dec_val f then Inl Out_Of_Range
      else if list_all isdigit f \<and> 1 \<le> dec_val f \<and> dec_val f \<le> 65535 then Inr (True, p\<lparr>portNum := dec_val f\<rparr>)
      else Inr (False, p))"
proof -
  obtain t input where t: "getToken (file_text file) = (t, input)" by (cases "getToken (file_text file)")
  with f have scan: "port_scan [] t input [] = f # fs" by (simp add: port_scan_tokens cur_tokens_getToken)
  have "f \<in> set (all_tokens (file_text file))"
    using port_followers_subset [of "[]" "all_tokens (file_text file)"] f by auto
  then have "f \<noteq> []" by (rule all_tokens_nonempty)
  then show ?thesis
    using stoi_digits [of f]
    by (auto simp: checkPortNum_def t scan isNumeric_def isValid_def setPortNum_def list_all_iff)
qed

text \<open>
  \<^bold>\<open>C31.\<close> The port number is decided by the first token that follows a token \<^verbatim>\<open>port\<close>. It is accepted
  and stored iff it is a sequence of digits with a value from 1 to 65535. Without such a token,
  with one that is no number, or with a value out of that range, the call reports failure and stores
  nothing; a sequence of digits that does not fit a 32-bit \<^verbatim>\<open>int\<close> makes \<^verbatim>\<open>std::stoi\<close> throw.
\<close>

theorem checkPortNum_spec:
  "checkPortNum file p =
     (case port_followers [] (all_tokens (file_text file)) of
        [] \<Rightarrow> Inr (False, p)
      | f # _ \<Rightarrow>
          if list_all isdigit f \<and> 2 ^ 31 \<le> dec_val f then Inl Out_Of_Range
          else if list_all isdigit f \<and> 1 \<le> dec_val f \<and> dec_val f \<le> 65535
          then Inr (True, p\<lparr>portNum := dec_val f\<rparr>)
          else Inr (False, p))"
  by (cases "port_followers [] (all_tokens (file_text file))")
    (simp_all add: checkPortNum_none checkPortNum_first)

subsection \<open>The inner scan\<close>

lemma skip_to_found:
  "cur_tokens t input = us @ stop # vs \<Longrightarrow> stop \<notin> set us \<Longrightarrow>
   \<exists>rest. skip_to stop t input = Some rest \<and> all_tokens rest = vs"
proof (induction us arbitrary: t input)
  case Nil
  then have "t = stop" "all_tokens input = vs" by (auto simp: cur_tokens_def split: if_splits)
  then show ?case by (simp add: skip_to.simps)
next
  case (Cons u us)
  obtain t' input' where t': "getToken input = (t', input')" by (cases "getToken input")
  from Cons.prems have "t = u" "all_tokens input = us @ stop # vs" "t \<noteq> stop"
    by (auto simp: cur_tokens_def split: if_splits)
  moreover from this(2) t' have "cur_tokens t' input' = us @ stop # vs" by (simp add: cur_tokens_getToken)
  ultimately show ?case
    using Cons.IH [of t' input'] Cons.prems(2) t' by (subst skip_to.simps) simp
qed

lemma skip_to_returns:
  assumes "skip_to stop t input = Some r" "stop \<noteq> []" "t = [] \<longrightarrow> input = []"
  shows "stop \<in> set (cur_tokens t input)"
proof -
  have "stop \<noteq> [] \<longrightarrow> (t = [] \<longrightarrow> input = []) \<longrightarrow> stop \<in> set (cur_tokens t input)"
  proof (rule skip_to.raw_induct [where P = "\<lambda>stop t input r. stop \<noteq> [] \<longrightarrow> (t = [] \<longrightarrow> input = []) \<longrightarrow>
      stop \<in> set (cur_tokens t input)", OF _ assms(1)])
    fix f stop t input r
    assume IH: "\<And>stop t input r. f stop t input = Some r \<Longrightarrow>
        stop \<noteq> [] \<longrightarrow> (t = [] \<longrightarrow> input = []) \<longrightarrow> stop \<in> set (cur_tokens t input)"
      and eq: "(if t = stop then Some input else case getToken input of (t', input') \<Rightarrow> f stop t' input') = Some r"
    obtain t' input' where t': "getToken input = (t', input')" by (cases "getToken input")
    show "stop \<noteq> [] \<longrightarrow> (t = [] \<longrightarrow> input = []) \<longrightarrow> stop \<in> set (cur_tokens t input)"
    proof (intro impI)
      assume ne: "stop \<noteq> []" and end_in: "t = [] \<longrightarrow> input = []"
      show "stop \<in> set (cur_tokens t input)"
      proof (cases "t = stop")
        case True
        with ne show ?thesis by (simp add: cur_tokens_def)
      next
        case False
        then have "stop \<in> set (cur_tokens t' input')"
          using eq t' IH [of stop t' input' r] ne getToken_empty by auto
        then have "stop \<in> set (all_tokens input)" using t' by (simp add: cur_tokens_getToken)
        with end_in show ?thesis by (auto simp: cur_tokens_def)
      qed
    qed
  qed
  with assms show ?thesis by blast
qed

lemma skip_to_tokens:
  assumes "stop \<noteq> []" "t = [] \<longrightarrow> input = []"
  shows "case dropWhile (\<lambda>u. u \<noteq> stop) (cur_tokens t input) of
      [] \<Rightarrow> skip_to stop t input = None
    | _ # vs \<Rightarrow> \<exists>rest. skip_to stop t input = Some rest \<and> all_tokens rest = vs"
proof (cases "stop \<in> set (cur_tokens t input)")
  case True
  then obtain us vs where us: "cur_tokens t input = us @ stop # vs" "stop \<notin> set us"
    by (meson split_list_first)
  then have "dropWhile (\<lambda>u. u \<noteq> stop) (cur_tokens t input) = stop # vs"
    by (subst us(1), subst dropWhile_append2) auto
  with skip_to_found [OF us] show ?thesis by simp
next
  case False
  then have "skip_to stop t input = None" using skip_to_returns [OF _ assms] by (cases "skip_to stop t input") auto
  moreover have "dropWhile (\<lambda>u. u \<noteq> stop) (cur_tokens t input) = []"
    using False by (auto simp: dropWhile_eq_Nil_conv)
  ultimately show ?thesis by (simp only: list.case)
qed

lemma skip_to_tokens_cases:
  assumes "getToken s = (t, input)" "stop \<noteq> []"
  obtains
    (none) "dropWhile (\<lambda>u. u \<noteq> stop) (all_tokens s) = []" "skip_to stop t input = None"
  | (some) v rest where "dropWhile (\<lambda>u. u \<noteq> stop) (all_tokens s) = v # all_tokens rest"
      "skip_to stop t input = Some rest"
  using skip_to_tokens [of stop t input] assms getToken_empty [of s input]
  by (auto simp: cur_tokens_getToken split: list.splits)

subsection \<open>The block headers\<close>

text \<open>
  The loop of \<open>setConfigBlocks\<close> as a function of the tokens: the reference the character-level loop
  is compared with. \<^const>\<open>None\<close> is a scan that runs past the last token.
\<close>

lemma dropWhile_shorter: "dropWhile P xs = y # ys \<Longrightarrow> length ys < length xs"
  using length_dropWhile_le [of P xs] by simp

function (sequential) block_toks :: "string \<Rightarrow> string list \<Rightarrow> config_block list \<Rightarrow> config_block list option" where
  "block_toks l [] bs = Some bs"
| "block_toks l [t] bs = Some bs"
| "block_toks l (t # t1 # ts) bs =
     (if l \<noteq> ''location'' then block_toks t (t1 # ts) bs
      else if t1 \<in> set known_handlers then
        (case dropWhile (\<lambda>u. u \<noteq> ''}'') ts of
           [] \<Rightarrow> None
         | _ # ts' \<Rightarrow>
             block_toks ''}'' ts' (bs @ [\<lparr>cb_prefix = t, cb_handler_type = t1, cb_content = Config []\<rparr>]))
      else
        (case ts of
           [] \<Rightarrow> Some bs
         | t2 # ts2 \<Rightarrow>
             if t2 = ''{'' then
               (case dropWhile (\<lambda>u. u \<noteq> '';'') ts2 of
                  [] \<Rightarrow> None
                | _ # ts' \<Rightarrow>
                    block_toks '';'' ts' (bs @ [\<lparr>cb_prefix = t, cb_handler_type = t1, cb_content = Config []\<rparr>]))
             else block_toks t2 ts2 bs))"
  by pat_completeness auto
termination
  by (relation "measure (\<lambda>(l, ts, bs). length ts)") (auto dest: dropWhile_shorter)

text \<open>
  One unfolding of the loop, in a state where the file still has tokens: the three ways on.
\<close>

lemma block_scan_next:
  assumes "t \<noteq> []" "getToken input = (t1, input1)"
  shows "block_scan l t input bs =
    (if l \<noteq> ''location'' then block_scan t t1 input1 bs
     else if t1 \<in> set known_handlers then
       Option.bind (skip_to ''}'' t1 input1) (\<lambda>input2.
         case getToken input2 of (t4, input4) \<Rightarrow>
           block_scan ''}'' t4 input4 (bs @ [\<lparr>cb_prefix = t, cb_handler_type = t1, cb_content = Config []\<rparr>]))
     else
       case getToken input1 of (t2, input2) \<Rightarrow> case getToken input2 of (t3, input3) \<Rightarrow>
         if t2 = ''{'' then
           Option.bind (skip_to '';'' t3 input3) (\<lambda>input5.
             case getToken input5 of (t4, input4) \<Rightarrow>
               block_scan '';'' t4 input4 (bs @ [\<lparr>cb_prefix = t, cb_handler_type = t1, cb_content = Config []\<rparr>]))
         else block_scan t2 t3 input3 bs)"
  using assms by (subst block_scan.simps) (simp add: Let_def split: prod.split)

lemma block_scan_Nil [simp]: "block_scan l [] input bs = Some bs"
  by (subst block_scan.simps) simp

lemma known_not_brace: "t \<in> set known_handlers \<Longrightarrow> t \<noteq> ''}'' \<and> t \<noteq> []"
  by (auto simp: known_handlers_def)

text \<open>The two kinds of block, given the claim for the rest of the file.\<close>

lemma block_scan_known:
  assumes "t \<noteq> []" "getToken input = (t1, input1)" "t1 \<in> set known_handlers"
    "\<And>l s t' input' bs. getToken s = (t', input') \<Longrightarrow> length (all_tokens s) < length (cur_tokens t input) \<Longrightarrow>
       block_scan l t' input' bs = block_toks l (all_tokens s) bs"
  shows "block_scan ''location'' t input bs = block_toks ''location'' (cur_tokens t input) bs"
proof -
  obtain t2 input2 where t2: "getToken input1 = (t2, input2)" by (cases "getToken input1")
  have t1: "t1 \<noteq> []" "t1 \<noteq> ''}''" using assms(3) known_not_brace by auto
  have skip: "skip_to ''}'' t1 input1 = skip_to ''}'' t2 input2" using t1 t2 by (subst skip_to.simps) simp
  have ct: "cur_tokens t input = t # t1 # all_tokens input1"
    using assms(1,2) t1 by (simp add: cur_tokens_def all_tokens_cases)
  note nxt = block_scan_next [OF assms(1,2)]
  have stop: "''}'' \<noteq> []" by simp
  show ?thesis
  proof (cases rule: skip_to_tokens_cases [OF t2 stop])
    case 1
    with assms(3) skip show ?thesis by (simp add: nxt ct del: dropWhile_eq_Nil_conv)
  next
    case (2 v rest)
    obtain t4 input4 where t4: "getToken rest = (t4, input4)" by (cases "getToken rest")
    have "length (all_tokens rest) < length (cur_tokens t input)" using dropWhile_shorter [OF 2(1)] ct by simp
    with 2 assms(3) skip t4 assms(4) [OF t4] show ?thesis by (simp add: nxt ct)
  qed
qed

lemma block_scan_static:
  assumes "t \<noteq> []" "getToken input = (t1, input1)" "t1 \<noteq> []" "t1 \<notin> set known_handlers" "getToken input1 = (''{'', input2)"
    "\<And>l s t' input' bs. getToken s = (t', input') \<Longrightarrow> length (all_tokens s) < length (cur_tokens t input) \<Longrightarrow>
       block_scan l t' input' bs = block_toks l (all_tokens s) bs"
  shows "block_scan ''location'' t input bs = block_toks ''location'' (cur_tokens t input) bs"
proof -
  obtain t3 input3 where t3: "getToken input2 = (t3, input3)" by (cases "getToken input2")
  have ct: "cur_tokens t input = t # t1 # ''{'' # all_tokens input2"
    using assms(1-3,5) by (simp add: cur_tokens_def all_tokens_cases)
  note nxt = block_scan_next [OF assms(1,2)]
  have stop: "'';'' \<noteq> []" by simp
  show ?thesis
  proof (cases rule: skip_to_tokens_cases [OF t3 stop])
    case 1
    with assms(4,5) t3 show ?thesis by (simp add: nxt ct del: dropWhile_eq_Nil_conv)
  next
    case (2 v rest)
    obtain t4 input4 where t4: "getToken rest = (t4, input4)" by (cases "getToken rest")
    have "length (all_tokens rest) < length (cur_tokens t input)" using dropWhile_shorter [OF 2(1)] ct by simp
    with 2 assms(4,5) t3 t4 assms(6) [OF t4] show ?thesis by (simp add: nxt ct)
  qed
qed

lemma block_scan_plain:
  assumes "t \<noteq> []" "getToken input = (t1, input1)" "t1 \<noteq> []" "t1 \<notin> set known_handlers" "t2 \<noteq> ''{''"
    "getToken input1 = (t2, input2)" "getToken input2 = (t3, input3)"
    "length (all_tokens input2) < length (cur_tokens t input) \<Longrightarrow> block_scan t2 t3 input3 bs = block_toks t2 (all_tokens input2) bs"
  shows "block_scan ''location'' t input bs = block_toks ''location'' (cur_tokens t input) bs"
proof -
  note nxt = block_scan_next [OF assms(1,2)]
  have ct: "cur_tokens t input = t # t1 # cur_tokens t2 input2"
    using assms(1-3,6) by (simp add: cur_tokens_def all_tokens_cases)
  show ?thesis
  proof (cases "t2 = []")
    case True
    then have "input2 = []" using assms(6) getToken_empty by simp
    moreover have "cur_tokens t input = [t, t1]" using True by (subst ct) (simp add: cur_tokens_def)
    ultimately show ?thesis using True assms(4,6,7) by (simp add: nxt)
  next
    case False
    then have "cur_tokens t input = t # t1 # t2 # all_tokens input2" by (subst ct) (simp add: cur_tokens_def)
    then show ?thesis using assms(4-8) by (simp add: nxt)
  qed
qed

lemma block_scan_cur_tokens: "block_scan l t input bs = block_toks l (cur_tokens t input) bs"
proof (induction "length (cur_tokens t input)" arbitrary: l t input bs rule: less_induct)
  case less
  have IH: "block_scan l' t' input' bs' = block_toks l' (all_tokens s) bs'"
    if "getToken s = (t', input')" "length (all_tokens s) < length (cur_tokens t input)" for l' s t' input' bs'
    using that less [of t' input' l' bs'] by (simp add: cur_tokens_getToken)
  obtain t1 input1 where t1: "getToken input = (t1, input1)" by (cases "getToken input")
  obtain t2 input2 where t2: "getToken input1 = (t2, input2)" by (cases "getToken input1")
  obtain t3 input3 where t3: "getToken input2 = (t3, input3)" by (cases "getToken input2")
  show ?case
  proof (cases "t = []")
    case False
    then have ct: "cur_tokens t input = t # cur_tokens t1 input1"
      using t1 by (simp add: cur_tokens_def all_tokens_cases)
    note nxt = block_scan_next [OF False t1]
    consider (no_loc) "l \<noteq> ''location''" | (last) "l = ''location''" "t1 = []"
      | (known) "l = ''location''" "t1 \<in> set known_handlers"
      | (static) "l = ''location''" "t1 \<noteq> []" "t1 \<notin> set known_handlers" "t2 = ''{''"
      | (other) "l = ''location''" "t1 \<noteq> []" "t1 \<notin> set known_handlers" "t2 \<noteq> ''{''" by blast
    then show ?thesis
    proof cases
      case no_loc
      then show ?thesis using IH [OF t1, of t bs] ct t1
        by (cases "all_tokens input") (simp_all add: nxt cur_tokens_getToken)
    next
      case last
      then have "input1 = []" using t1 getToken_empty by simp
      with last t2 t3 have "block_scan l t input bs = Some bs" by (simp add: nxt known_handlers_def)
      moreover have "cur_tokens t input = [t]" using last by (subst ct) (simp add: cur_tokens_def)
      ultimately show ?thesis by simp
    next
      case known
      then show ?thesis using block_scan_known [OF False t1 known(2) IH] by simp
    next
      case static
      then show ?thesis using block_scan_static [OF False t1 static(2,3) _ IH] t2 by simp
    next
      case other
      then show ?thesis using block_scan_plain [OF False t1 other(2-4) t2 t3] IH [OF t3] by simp
    qed
  qed (simp add: cur_tokens_def)
qed

text \<open>
  \<^bold>\<open>C21.\<close> The character-level loop of \<open>setConfigBlocks\<close> implements the reference on the token sequence
  of the file, for every input: it finds the same block headers, and it fails to return exactly
  where the reference runs past the last token looking for a closing brace or a semicolon.
\<close>

theorem block_scan_refines_tokens:
  "(case getToken s of (t, input) \<Rightarrow> block_scan [] t input bs) = block_toks [] (all_tokens s) bs"
  by (cases "getToken s") (simp add: block_scan_cur_tokens cur_tokens_getToken)

section \<open>Reading the settings of a printed configuration\<close>

fun stmt_tokens :: "NginxConfigStatement \<Rightarrow> string list"
  and config_tokens :: "NginxConfig \<Rightarrow> string list" where
  "stmt_tokens (Statement ts child) =
     ts @ (case child of None \<Rightarrow> ['';''] | Some b \<Rightarrow> ''{'' # config_tokens b @ [''}''])"
| "config_tokens (Config ss) = concat (map stmt_tokens ss)"

lemma all_tokens_ParseToken:
  "ParseToken s = (ty, t, rest) \<Longrightarrow> t \<noteq> [] \<Longrightarrow> all_tokens s = t # all_tokens rest"
  by (simp add: all_tokens_cases [of s t rest] getToken_def)

lemma all_tokens_blanks: "\<forall>c \<in> set ws. blank c \<Longrightarrow> all_tokens (ws @ s) = all_tokens s"
  by (subst (1 2) all_tokens.simps) (simp add: getToken_def ParseToken_blanks)

lemma all_tokens_blank: "blank c \<Longrightarrow> all_tokens (c # s) = all_tokens s"
  using all_tokens_blanks [of "[c]" s] by simp

lemma all_tokens_indent: "all_tokens (indent n @ s) = all_tokens s"
  by (rule all_tokens_blanks) (auto dest: indent_blank)

lemma all_tokens_special:
  "all_tokens (CHR '';'' # s) = '';'' # all_tokens s"
  "all_tokens (CHR ''{'' # s) = ''{'' # all_tokens s"
  "all_tokens (CHR ''}'' # s) = ''}'' # all_tokens s"
  by (rule all_tokens_ParseToken [OF ParseToken_special(1)] all_tokens_ParseToken [OF ParseToken_special(2)]
      all_tokens_ParseToken [OF ParseToken_special(3)]; simp)+

lemma token_wf_nonempty: "token_wf t \<Longrightarrow> t \<noteq> []"
  using token_wf_first by fastforce

lemma all_tokens_token:
  "token_wf t \<Longrightarrow> ends_normal d \<Longrightarrow> all_tokens (t @ d # s) = t # all_tokens (d # s)"
  by (rule all_tokens_ParseToken [OF ParseToken_token]) (auto dest: token_wf_nonempty)

lemma all_tokens_more:
  "list_all token_wf ts \<Longrightarrow> ends_normal d \<Longrightarrow>
   all_tokens (concat (map (\<lambda>u. SP # u) ts) @ d # s) = ts @ all_tokens (d # s)"
proof (induction ts)
  case (Cons t ts)
  obtain e rest where e: "concat (map (\<lambda>u. SP # u) ts) @ d # s = e # rest" "ends_normal e"
    using Cons.prems(2) by (cases ts) (auto simp: ends_normal_def)
  then show ?case
    using Cons all_tokens_token [of t e rest] by (simp add: all_tokens_blank blank_def)
qed simp

lemma all_tokens_join:
  assumes "ts \<noteq> []" "list_all token_wf ts" "ends_normal d"
  shows "all_tokens (indent n @ join_tokens ts @ d # s) = ts @ all_tokens (d # s)"
proof -
  obtain t us where ts: "ts = t # us" using assms(1) by (cases ts) auto
  have "all_tokens (SP # join_tokens ts @ d # s) = ts @ all_tokens (d # s)"
    using all_tokens_more [OF assms(2,3), of s] by (simp add: ts join_tokens_Cons)
  then show ?thesis
    by (simp add: all_tokens_indent all_tokens_blank blank_def)
qed

lemma all_tokens_printed:
  "stmt_wf st \<Longrightarrow> all_tokens (stmt_ToString n st @ s) = stmt_tokens st @ all_tokens s"
  "config_wf cfg \<Longrightarrow> all_tokens (config_ToString n cfg @ s) = config_tokens cfg @ all_tokens s"
proof (induction n st and n cfg arbitrary: s and s rule: stmt_ToString_config_ToString.induct)
  case (1 n ts child)
  show ?case
  proof (cases child)
    case None
    then show ?thesis using "1.prems" all_tokens_join [of ts "CHR '';''" n "LF # s"]
      by (simp add: ends_normal_def all_tokens_special all_tokens_blank blank_def)
  next
    case (Some b)
    let ?tail = "indent n @ ''}'' @ LF # s"
    have "all_tokens (stmt_ToString n (Statement ts child) @ s) =
        ts @ ''{'' # all_tokens (config_ToString (Suc n) b @ ?tail)"
      using "1.prems" Some all_tokens_join [of ts SP n "CHR ''{'' # LF # config_ToString (Suc n) b @ ?tail"]
      by (simp add: ends_normal_def all_tokens_special all_tokens_blank blank_def)
    also have "all_tokens (config_ToString (Suc n) b @ ?tail) = config_tokens b @ all_tokens ?tail"
      using 1 Some by simp
    also have "all_tokens ?tail = ''}'' # all_tokens s"
      by (simp add: all_tokens_indent all_tokens_special all_tokens_blank blank_def)
    finally show ?thesis using Some by simp
  qed
next
  case (2 n ss)
  then show ?case by (induction ss) simp_all
qed

subsection \<open>The blocks of a server\<close>

text \<open>
  The configuration of a server as its \<^verbatim>\<open>conf\<close> files write it: a port statement, then one
  \<^verbatim>\<open>location\<close> block per handler, with plain statements inside.
\<close>

definition location_stmt :: "config_block \<Rightarrow> NginxConfigStatement" where
  "location_stmt b = Statement [''location'', cb_prefix b, cb_handler_type b] (Some (cb_content b))"

definition server_config :: "string \<Rightarrow> config_block list \<Rightarrow> NginxConfig" where
  "server_config n bs = Config (Statement [''port'', n] None # map location_stmt bs)"

definition flat :: "NginxConfig \<Rightarrow> bool" where
  "flat cfg = list_all (\<lambda>st. child_block st = None) (statements cfg)"

text \<open>
  A handler type other than the six that are known is read as a static one: its block needs a
  statement inside, and no token \<^verbatim>\<open>location\<close>.
\<close>

definition server_block_wf :: "config_block \<Rightarrow> bool" where
  "server_block_wf b =
     (token_wf (cb_prefix b) \<and> token_wf (cb_handler_type b) \<and> config_wf (cb_content b) \<and> flat (cb_content b) \<and>
      (cb_handler_type b \<in> set known_handlers \<or>
       statements (cb_content b) \<noteq> [] \<and> ''location'' \<notin> set (config_tokens (cb_content b))))"

lemma token_wf_not_special: "\<not> token_wf ''}''" "\<not> token_wf ''{''" "\<not> token_wf '';''"
  by (auto simp: token_wf_def word_token_def quoted_token_def ends_normal_def)

lemma token_wf_port: "token_wf ''port''" "token_wf ''location''"
  by (auto simp: token_wf_def word_token_def ends_normal_def)

lemma token_wf_to_string: "token_wf (to_string n)"
proof -
  have "c \<notin> {CHR ''#'', QUOTE, CHR 0x27, CR} \<and> \<not> ends_normal c" if "c \<in> set (to_string n)" for c
    using to_string_digits [OF that] by (auto simp: isdigit_def ends_normal_def)
  then have "word_token (to_string n)" using list.set_sel(1) [of "to_string n"] by (auto simp: word_token_def)
  then show ?thesis by (simp add: token_wf_def)
qed

lemma to_string_not_location: "to_string n \<noteq> ''location''"
proof
  assume "to_string n = ''location''"
  then show False using to_string_digits [of "CHR ''l''" n] by (simp add: isdigit_def)
qed

lemma flat_no_brace:
  assumes "config_wf cfg" "flat cfg"
  shows "''}'' \<notin> set (config_tokens cfg)"
proof -
  obtain ss where cfg: "cfg = Config ss" by (cases cfg)
  have "''}'' \<notin> set (stmt_tokens st)" if "st \<in> set ss" for st
    by (cases st) (use that assms cfg token_wf_not_special(1) in \<open>auto simp: flat_def list_all_iff\<close>)
  with cfg show ?thesis by auto
qed

lemma flat_blocks: "flat cfg \<Longrightarrow> config_blocks cfg = []"
proof -
  assume fl: "flat cfg"
  obtain ss where cfg: "cfg = Config ss" by (cases cfg)
  have "stmt_blocks st = []" if "st \<in> set ss" for st
    by (cases st) (use that fl cfg in \<open>auto simp: flat_def list_all_iff\<close>)
  with cfg show ?thesis by simp
qed

lemma flat_semicolon:
  assumes "config_wf cfg" "flat cfg" "statements cfg \<noteq> []"
  obtains us vs where "config_tokens cfg = us @ '';'' # vs" "'';'' \<notin> set us"
proof -
  obtain ts ch ss where cfg: "cfg = Config (Statement ts ch # ss)"
    using assms(3) by (cases cfg; cases "statements cfg"; cases "hd (statements cfg)") auto
  with assms(1,2) have "config_tokens cfg = ts @ '';'' # concat (map stmt_tokens ss)" "'';'' \<notin> set ts"
    using token_wf_not_special(3) by (auto simp: flat_def list_all_iff)
  then show ?thesis by (rule that)
qed

subsection \<open>The scan over a server's blocks\<close>

lemma block_toks_step: "l \<noteq> ''location'' \<Longrightarrow> block_toks l (t # ts) bs = block_toks t ts bs"
  by (cases ts) simp_all

lemma block_toks_skip:
  "''location'' \<notin> set (l # us) \<Longrightarrow> block_toks l (us @ ts) bs = block_toks (last (l # us)) ts bs"
  by (induction us arbitrary: l) (auto simp: block_toks_step)

lemma dropWhile_stop: "stop \<notin> set us \<Longrightarrow> dropWhile (\<lambda>u. u \<noteq> stop) (us @ stop # vs) = stop # vs"
  by (induction us) auto

lemma block_toks_block:
  assumes "server_block_wf b" "l \<noteq> ''location''"
  shows "block_toks l (stmt_tokens (location_stmt b) @ ts) bs =
    block_toks ''}'' ts (bs @ [b\<lparr>cb_content := Config []\<rparr>])"
proof -
  let ?c = "config_tokens (cb_content b)"
  let ?h = "cb_handler_type b"
  let ?b = "\<lparr>cb_prefix = cb_prefix b, cb_handler_type = ?h, cb_content = Config []\<rparr>"
  have b: "b\<lparr>cb_content := Config []\<rparr> = ?b" by (cases b) simp
  have toks: "block_toks l (stmt_tokens (location_stmt b) @ ts) bs =
      block_toks ''location'' (cb_prefix b # ?h # ''{'' # ?c @ ''}'' # ts) bs"
    using assms(2) by (simp add: location_stmt_def block_toks_step)
  show ?thesis
  proof (cases "?h \<in> set known_handlers")
    case True
    then show ?thesis
      using dropWhile_stop [OF flat_no_brace, of "cb_content b" ts] assms(1)
      by (simp add: toks b server_block_wf_def)
  next
    case False
    then have c: "config_wf (cb_content b)" "flat (cb_content b)" "statements (cb_content b) \<noteq> []"
        "''location'' \<notin> set ?c"
      using assms(1) by (auto simp: server_block_wf_def)
    obtain us vs where us: "?c = us @ '';'' # vs" "'';'' \<notin> set us" using c(1-3) by (rule flat_semicolon)
    have "block_toks '';'' ((vs @ [''}'']) @ ts) (bs @ [?b]) = block_toks ''}'' ts (bs @ [?b])"
      using c(4) us(1) by (subst block_toks_skip) auto
    then show ?thesis
      using False dropWhile_stop [OF us(2), of "vs @ ''}'' # ts"] by (simp add: toks b us(1))
  qed
qed

lemma block_toks_blocks:
  "list_all server_block_wf bs \<Longrightarrow> l \<noteq> ''location'' \<Longrightarrow>
   block_toks l (concat (map (stmt_tokens \<circ> location_stmt) bs)) cs =
     Some (cs @ map (\<lambda>b. b\<lparr>cb_content := Config []\<rparr>) bs)"
  by (induction bs arbitrary: l cs) (simp_all add: block_toks_block)

lemma server_config_wf: "token_wf n \<Longrightarrow> list_all server_block_wf bs \<Longrightarrow> config_wf (server_config n bs)"
  by (auto simp: server_config_def location_stmt_def server_block_wf_def list_all_iff token_wf_port)

lemma server_config_blocks:
  assumes "list_all server_block_wf bs"
  shows "config_blocks (server_config n bs) = map cb_content bs"
proof -
  have "stmt_blocks (location_stmt b) = [cb_content b]" if "b \<in> set bs" for b
    using that assms flat_blocks [of "cb_content b"]
    by (auto simp: location_stmt_def list_all_iff server_block_wf_def)
  then show ?thesis by (simp add: server_config_def cong: map_cong)
qed

lemma server_config_tokens:
  "config_tokens (server_config n bs) = ''port'' # n # '';'' # concat (map (stmt_tokens \<circ> location_stmt) bs)"
  by (simp add: server_config_def comp_def)

lemma assign_contents_all:
  "assign_contents (map cb_content bs) (map (\<lambda>b. b\<lparr>cb_content := Config []\<rparr>) bs) = Inr bs"
proof -
  have "map2 (\<lambda>b c. b\<lparr>cb_content := c\<rparr>) (map (\<lambda>b. b\<lparr>cb_content := Config []\<rparr>) bs) (map cb_content bs) = bs"
    by (induction bs) simp_all
  then show ?thesis by (simp add: assign_contents_def)
qed

lemma server_config_text:
  assumes "list_all server_block_wf bs" "file = config_ToString d (server_config (to_string k) bs)"
  shows "all_tokens file = config_tokens (server_config (to_string k) bs)"
    "Parse_file (Some file) (Config []) [] = Inr (True, server_config (to_string k) bs, map cb_content bs)"
proof -
  have wf: "config_wf (server_config (to_string k) bs)" using assms(1) token_wf_to_string by (intro server_config_wf)
  show "all_tokens file = config_tokens (server_config (to_string k) bs)"
    using all_tokens_printed(2) [OF wf, of d "[]"] assms(2) by simp
  show "Parse_file (Some file) (Config []) [] = Inr (True, server_config (to_string k) bs, map cb_content bs)"
    using Parse_printed [OF wf, of "[]" "[]" d] assms(2)
    by (simp add: Parse_file_def server_config_blocks [OF assms(1)])
qed

lemma checkPortNum_server:
  assumes "1 \<le> k" "k \<le> 65535" "list_all server_block_wf bs" "file = config_ToString d (server_config (to_string k) bs)"
  shows "checkPortNum (Some file) p = Inr (True, p\<lparr>portNum := int k\<rparr>)"
proof -
  have "port_followers [] (all_tokens (file_text (Some file))) =
      to_string k # port_followers (to_string k) ('';'' # concat (map (stmt_tokens \<circ> location_stmt) bs))"
    by (simp add: file_text_def server_config_text(1) [OF assms(3,4)] server_config_tokens)
  from checkPortNum_first [OF this] show ?thesis using assms(1,2) to_string_digits by (auto simp: list_all_iff)
qed

lemma setConfigBlocks_server:
  assumes "list_all server_block_wf bs" "port_config_blocks p = []" "file = config_ToString d (server_config (to_string k) bs)"
  shows "setConfigBlocks (Some file) (Config []) p =
      Some (Inr (True, server_config (to_string k) bs, p\<lparr>port_config_blocks := bs\<rparr>))"
proof -
  obtain t input where t: "getToken file = (t, input)" by (cases "getToken file")
  have "block_scan [] t input [] = block_toks [] (all_tokens file) []"
    using t by (simp add: block_scan_cur_tokens cur_tokens_getToken)
  also have "\<dots> = Some (map (\<lambda>b. b\<lparr>cb_content := Config []\<rparr>) bs)"
    using assms(1) to_string_not_location [of k]
    by (simp add: server_config_text(1) [OF assms(1,3)] server_config_tokens block_toks_step block_toks_blocks)
  finally show ?thesis
    using assms(2)
    by (simp add: setConfigBlocks_def server_config_text(2) [OF assms(1,3)] t file_text_def assign_contents_all)
qed

text \<open>
  \<^bold>\<open>C16.\<close> The settings the server starts from are those the configuration states: on the text of a
  configuration with a port from 1 to 65535 and any sequence of handler blocks, \<open>checkPortNum\<close>
  stores that port, and \<open>setConfigBlocks\<close> yields the configuration and exactly those blocks, in
  order, each with its own prefix, handler type and content.
\<close>

theorem server_settings_read:
  assumes "1 \<le> k" "k \<le> 65535" "list_all server_block_wf bs" "port_config_blocks p = []"
    "file = config_ToString d (server_config (to_string k) bs)"
  shows "checkPortNum (Some file) p = Inr (True, p\<lparr>portNum := int k\<rparr>) \<and>
    setConfigBlocks (Some file) (Config []) p =
      Some (Inr (True, server_config (to_string k) bs, p\<lparr>port_config_blocks := bs\<rparr>))"
  using checkPortNum_server [OF assms(1,2,3,5)] setConfigBlocks_server [OF assms(3,4,5)] by blast

theorem server_settings_read_witness:
  "checkPortNum (Some (config_ToString 0 (server_config (to_string 8081)
       [\<lparr>cb_prefix = ''/e'', cb_handler_type = ''EchoHandler'', cb_content = Config []\<rparr>,
        \<lparr>cb_prefix = ''/s'', cb_handler_type = ''StaticHandler'', cb_content = Config [Statement [''root'', ''d''] None]\<rparr>])))
     \<lparr>portNum = 0, fileMap = [], port_config_blocks = []\<rparr> =
     Inr (True, \<lparr>portNum = 0, fileMap = [], port_config_blocks = []\<rparr>\<lparr>portNum := int 8081\<rparr>)"
  by (rule conjunct1, rule server_settings_read [where d = 0 and bs =
       "[\<lparr>cb_prefix = ''/e'', cb_handler_type = ''EchoHandler'', cb_content = Config []\<rparr>,
         \<lparr>cb_prefix = ''/s'', cb_handler_type = ''StaticHandler'', cb_content = Config [Statement [''root'', ''d''] None]\<rparr>]"])
    (simp, simp, code_simp, simp, simp)

subsection \<open>Configurations the reader does not survive\<close>

lemma block_scan_file:
  "(case getToken s of (t, input) \<Rightarrow> map_option f (block_scan [] t input bs)) =
     map_option f (block_toks [] (all_tokens s) bs)"
  by (cases "getToken s") (simp add: block_scan_cur_tokens cur_tokens_getToken)

text \<open>
  A well-formed configuration with a block but no \<^verbatim>\<open>location\<close> is accepted by the parser and
  then drives \<open>setConfigBlocks\<close> out of bounds: it stores the content of the first block at an index
  of the empty list of block headers.
\<close>

theorem setConfigBlocks_out_of_bounds:
  assumes "config_wf cfg" "''location'' \<notin> set (config_tokens cfg)" "config_blocks cfg \<noteq> []"
    "port_config_blocks p = []"
  shows "setConfigBlocks (Some (config_ToString d cfg)) (Config []) p = Some (Inl Undefined_Behaviour)"
proof -
  have "all_tokens (config_ToString d cfg) = config_tokens cfg"
    using all_tokens_printed(2) [OF assms(1), of d "[]"] by simp
  moreover have "block_toks [] (config_tokens cfg) [] = Some []"
    using block_toks_skip [of "[]" "config_tokens cfg" "[]" "[]"] assms(2) by simp
  ultimately show ?thesis
    using Parse_printed [OF assms(1), of "[]" "[]" d] assms(3,4)
    by (simp add: setConfigBlocks_def Parse_file_def file_text_def block_scan_file assign_contents_def)
qed

theorem setConfigBlocks_out_of_bounds_witness:
  "setConfigBlocks (Some (config_ToString 0 (Config [Statement [''server''] (Some (Config []))]))) (Config [])
     \<lparr>portNum = 0, fileMap = [], port_config_blocks = []\<rparr> = Some (Inl Undefined_Behaviour)"
  by (rule setConfigBlocks_out_of_bounds) (code_simp+)

text \<open>
  \<^bold>\<open>C40.\<close> A \<^verbatim>\<open>location\<close> with one of the six known handler types and no closing brace after it makes
  \<open>setConfigBlocks\<close> run forever: the search for the brace has no check for the end of the file. This
  holds whatever the parser says of the text, since its verdict is not looked at.
\<close>

theorem setConfigBlocks_hangs:
  assumes "all_tokens s = us @ [''location'', loc, h] @ vs" "''location'' \<notin> set us"
    "h \<in> set known_handlers" "''}'' \<notin> set vs"
  shows "setConfigBlocks (Some s) config p = None"
proof -
  obtain r where r: "Parse_file (Some s) config [] = Inr r"
    using Parse_config_completes [of s config "[]"] by (auto simp: Parse_file_def completes_iff)
  have l: "last ([] # us) \<noteq> ''location''" using assms(2) last_in_set [of "[] # us"] by auto
  have "block_toks [] (all_tokens s) bs = block_toks (last ([] # us)) (''location'' # loc # h # vs) bs" for bs
    using assms(1,2) block_toks_skip [of "[]" us "''location'' # loc # h # vs" bs] by simp
  moreover have "dropWhile (\<lambda>u. u \<noteq> ''}'') vs = []" using assms(4) by auto
  ultimately have "block_toks [] (all_tokens s) bs = None" for bs
    using assms(3) by (simp only: block_toks_step [OF l]) (simp del: dropWhile_eq_Nil_conv)
  with r show ?thesis by (cases r) (simp add: setConfigBlocks_def file_text_def block_scan_file)
qed

theorem setConfigBlocks_hangs_witness:
  "setConfigBlocks (Some ''port 80; location /e EchoHandler;'') (Config [])
     \<lparr>portNum = 0, fileMap = [], port_config_blocks = []\<rparr> = None"
  by (rule setConfigBlocks_hangs [where us = "[''port'', ''80'', '';'']" and loc = "''/e''"
        and h = "''EchoHandler''" and vs = "['';'']"]) (code_simp+)

end
