(* ===== verification/Http_Types.thy ===== *)
theory Http_Types
  imports Prelude
begin

text \<open>
  The data of the HTTP exchange: the request of \<^verbatim>\<open>include/request.h\<close> and the response of
  \<^verbatim>\<open>include/response.h\<close>.
\<close>

section \<open>Requests\<close>

datatype Method = GET | POST | PUT | DELETE | HEAD | CONNECT | OPTIONS | TRACE | PATCH

text \<open>The value of the enumerator.\<close>

fun method_index :: "Method \<Rightarrow> int" where
  "method_index GET = 0"
| "method_index POST = 1"
| "method_index PUT = 2"
| "method_index DELETE = 3"
| "method_index HEAD = 4"
| "method_index CONNECT = 5"
| "method_index OPTIONS = 6"
| "method_index TRACE = 7"
| "method_index PATCH = 8"

record request =
  req_method :: Method
  req_uri :: string
  req_headers :: "string smap"
  req_body :: string
  req_version :: string

section \<open>Responses\<close>

text \<open>
  The enumerators of \<^verbatim>\<open>Response::StatusCode\<close>. The proxy casts the code of the remote server
  into this type, so a value that is no enumerator can occur: \<open>sc_other\<close>.
\<close>

datatype StatusCode =
    sc_ok | sc_created | sc_accepted | sc_no_content
  | sc_moved_permanently | sc_moved_temporarily | sc_not_modified
  | sc_bad_request | sc_unauthorized | sc_forbidden | sc_not_found
  | sc_internal_server_error | sc_not_implemented | sc_bad_gateway
  | sc_service_unavailable | sc_gateway_timeout
  | sc_other nat

text \<open>\<^verbatim>\<open>static_cast<int>(code)\<close> and \<^verbatim>\<open>static_cast<StatusCode>(n)\<close>.\<close>

fun code_number :: "StatusCode \<Rightarrow> nat" where
  "code_number sc_ok = 200"
| "code_number sc_created = 201"
| "code_number sc_accepted = 202"
| "code_number sc_no_content = 204"
| "code_number sc_moved_permanently = 301"
| "code_number sc_moved_temporarily = 302"
| "code_number sc_not_modified = 304"
| "code_number sc_bad_request = 400"
| "code_number sc_unauthorized = 401"
| "code_number sc_forbidden = 403"
| "code_number sc_not_found = 404"
| "code_number sc_internal_server_error = 500"
| "code_number sc_not_implemented = 501"
| "code_number sc_bad_gateway = 502"
| "code_number sc_service_unavailable = 503"
| "code_number sc_gateway_timeout = 504"
| "code_number (sc_other n) = n"

definition known_codes :: "StatusCode list" where
  "known_codes = [sc_ok, sc_created, sc_accepted, sc_no_content, sc_moved_permanently,
     sc_moved_temporarily, sc_not_modified, sc_bad_request, sc_unauthorized, sc_forbidden,
     sc_not_found, sc_internal_server_error, sc_not_implemented, sc_bad_gateway,
     sc_service_unavailable, sc_gateway_timeout]"

definition code_of_number :: "nat \<Rightarrow> StatusCode" where
  "code_of_number n =
     (case filter (\<lambda>c. code_number c = n) known_codes of [] \<Rightarrow> sc_other n | c # _ \<Rightarrow> c)"

record response =
  res_code :: StatusCode
  res_headers :: "string smap"
  res_body :: string
  res_src_type :: int

lemma code_number_of_number [simp]: "code_number (code_of_number n) = n"
proof (cases "filter (\<lambda>c. code_number c = n) known_codes")
  case Nil
  then show ?thesis by (simp add: code_of_number_def)
next
  case (Cons c cs)
  from filter_eq_ConsD [OF this] have "code_number c = n" by auto
  with Cons show ?thesis by (simp add: code_of_number_def)
qed

lemma code_of_number_known: "c \<in> set known_codes \<Longrightarrow> code_of_number (code_number c) = c"
  by (auto simp: known_codes_def code_of_number_def)

end
