(* ===== verification/Cached_Page.thy ===== *)
theory Cached_Page
  imports Http_Types
begin

text \<open>
  A response kept by the proxy, \<^verbatim>\<open>src/cached_page.cc\<close>. The clock \<^verbatim>\<open>time(0)\<close> is the argument \<open>now\<close>
  of the operations that read it. Times are 64-bit and far from their bounds; the staleness is
  narrowed to a 32-bit \<^verbatim>\<open>int\<close>, which keeps the low 32 bits.
\<close>

definition one_min :: int where
  "one_min = 60"

record cached_page =
  cp_response :: response
  cp_time_start :: int
  cp_max_age :: int

definition new_cached_page :: "response \<Rightarrow> int \<Rightarrow> int \<Rightarrow> cached_page" where
  "new_cached_page res age now = \<lparr>cp_response = res, cp_time_start = now, cp_max_age = age\<rparr>"

definition isExpired :: "cached_page \<Rightarrow> int \<Rightarrow> int \<Rightarrow> bool" where
  "isExpired p limit now = (now - cp_time_start p > limit)"

definition isFresh :: "cached_page \<Rightarrow> int \<Rightarrow> int \<Rightarrow> bool" where
  "isFresh p min_fresh now = (now > cp_time_start p + min_fresh)"

definition couldStale :: "cached_page \<Rightarrow> int \<Rightarrow> int \<Rightarrow> bool" where
  "couldStale p max_stale now =
     (let stale_time = signed_take_bit 31 (now - cp_time_start p - cp_max_age p) in stale_time < max_stale)"

definition get_cache :: "cached_page \<Rightarrow> response" where
  "get_cache p = cp_response p"

definition update_cache :: "response \<Rightarrow> cached_page \<Rightarrow> cached_page" where
  "update_cache res p = p\<lparr>cp_response := res\<rparr>"

definition update_age :: "int \<Rightarrow> cached_page \<Rightarrow> cached_page" where
  "update_age age p = p\<lparr>cp_max_age := age\<rparr>"

section \<open>The age of a page\<close>

lemma signed_31: "- (2 ^ 31) \<le> v \<Longrightarrow> v < 2 ^ 31 \<Longrightarrow> signed_take_bit 31 v = (v :: int)"
  by (simp add: signed_take_bit_int_eq_self)

text \<open>
  A page a request with \<^verbatim>\<open>max-age = m\<close> may still get is at most \<open>m\<close> seconds old, and every later
  moment only makes it older.
\<close>

lemma isExpired_mono: "isExpired p m now \<Longrightarrow> now \<le> later \<Longrightarrow> m' \<le> m \<Longrightarrow> isExpired p m' later"
  by (simp add: isExpired_def)

lemma not_expired_age: "\<not> isExpired p m now \<longleftrightarrow> now \<le> cp_time_start p + m"
  by (auto simp: isExpired_def)

lemma couldStale_in_range:
  assumes "\<bar>now - cp_time_start p - cp_max_age p\<bar> < 2 ^ 31"
  shows "couldStale p m now \<longleftrightarrow> now < cp_time_start p + cp_max_age p + m"
proof -
  have "signed_take_bit 31 (now - cp_time_start p - cp_max_age p) = now - cp_time_start p - cp_max_age p"
    using assms by (intro signed_31) linarith+
  then show ?thesis by (auto simp: couldStale_def Let_def)
qed

text \<open>
  The check called \<^verbatim>\<open>isFresh\<close> is the opposite of freshness: at the same bound it holds exactly
  when the page is expired, so it turns true by waiting and never turns false again. (The comment
  reads "the cache is at least this fresh".)
\<close>

theorem isFresh_is_isExpired:
  "isFresh p m now = isExpired p m now \<and> (isFresh p m now \<longrightarrow> isFresh p m (now + int k))"
  by (auto simp: isFresh_def isExpired_def)

theorem isFresh_is_isExpired_witness:
  "isFresh (new_cached_page \<lparr>res_code = sc_ok, res_headers = [], res_body = [], res_src_type = 0\<rparr> one_min 100) 10 200 \<and>
   isFresh (new_cached_page \<lparr>res_code = sc_ok, res_headers = [], res_body = [], res_src_type = 0\<rparr> one_min 100) 10 (200 + int 7)"
proof -
  let ?p = "new_cached_page \<lparr>res_code = sc_ok, res_headers = [], res_body = [], res_src_type = 0\<rparr> one_min 100"
  have "isExpired ?p 10 200" by code_simp
  with isFresh_is_isExpired [of ?p 10 200 7] show ?thesis by simp
qed

end
