(* ===== verification/Regex.thy ===== *)
theory Regex
  imports Prelude
begin

text \<open>
  Regular expressions, as far as the sources use them: character classes, sequences,
  alternatives and repetition. The language of an expression is the specification;
  \<open>rx_match\<close> decides it by derivatives and is what \<^verbatim>\<open>std::regex_match\<close> computes for these
  patterns; \<open>rx_search\<close> is \<^verbatim>\<open>std::regex_search\<close>. The engine of \<^verbatim>\<open>boost::xpressive\<close> is a
  parameter of the components that call it, with the interface \<open>regex_engine\<close>.
\<close>

section \<open>Expressions and their matcher\<close>

datatype rexp =
    Zero
  | One
  | Cls "char \<Rightarrow> bool"
  | Alt rexp rexp
  | Seq rexp rexp
  | Star rexp

fun nullable :: "rexp \<Rightarrow> bool" where
  "nullable Zero = False"
| "nullable One = True"
| "nullable (Cls p) = False"
| "nullable (Alt r s) = (nullable r \<or> nullable s)"
| "nullable (Seq r s) = (nullable r \<and> nullable s)"
| "nullable (Star r) = True"

text \<open>Derivatives, with the units and zeros removed so that they stay small.\<close>

fun seq_s :: "rexp \<Rightarrow> rexp \<Rightarrow> rexp" where
  "seq_s Zero s = Zero"
| "seq_s One s = s"
| "seq_s r s = Seq r s"

fun alt_s :: "rexp \<Rightarrow> rexp \<Rightarrow> rexp" where
  "alt_s Zero s = s"
| "alt_s r Zero = r"
| "alt_s r s = Alt r s"

fun deriv :: "char \<Rightarrow> rexp \<Rightarrow> rexp" where
  "deriv c Zero = Zero"
| "deriv c One = Zero"
| "deriv c (Cls p) = (if p c then One else Zero)"
| "deriv c (Alt r s) = alt_s (deriv c r) (deriv c s)"
| "deriv c (Seq r s) =
     (if nullable r then alt_s (seq_s (deriv c r) s) (deriv c s) else seq_s (deriv c r) s)"
| "deriv c (Star r) = seq_s (deriv c r) (Star r)"

fun rx_match :: "rexp \<Rightarrow> string \<Rightarrow> bool" where
  "rx_match r [] = nullable r"
| "rx_match r (c # cs) = rx_match (deriv c r) cs"

section \<open>The abbreviations of the pattern language\<close>

definition lit :: "string \<Rightarrow> rexp" where
  "lit s = foldr (\<lambda>c r. Seq (Cls (\<lambda>x. x = c)) r) s One"

definition plus :: "rexp \<Rightarrow> rexp" where
  "plus r = Seq r (Star r)"

definition any_char :: rexp where
  "any_char = Cls (\<lambda>_. True)"

definition alpha :: "char \<Rightarrow> bool" where
  "alpha c = (isupper c \<or> islower c)"

text \<open>\<^verbatim>\<open>\w\<close>\<close>

definition word_char :: "char \<Rightarrow> bool" where
  "word_char c = (alpha c \<or> isdigit c \<or> c = CHR ''_'')"

text \<open>\<^verbatim>\<open>regex_search\<close>: the pattern matches somewhere inside the string.\<close>

definition rx_search :: "rexp \<Rightarrow> string \<Rightarrow> bool" where
  "rx_search r s = rx_match (Seq (Star any_char) (Seq r (Star any_char))) s"

section \<open>The language of an expression\<close>

inductive in_star :: "(string \<Rightarrow> bool) \<Rightarrow> string \<Rightarrow> bool" for L where
  nil: "in_star L []"
| app: "L u \<Longrightarrow> in_star L v \<Longrightarrow> in_star L (u @ v)"

fun in_lang :: "rexp \<Rightarrow> string \<Rightarrow> bool" where
  "in_lang Zero w = False"
| "in_lang One w = (w = [])"
| "in_lang (Cls p) w = (\<exists>c. w = [c] \<and> p c)"
| "in_lang (Alt r s) w = (in_lang r w \<or> in_lang s w)"
| "in_lang (Seq r s) w = (\<exists>u v. w = u @ v \<and> in_lang r u \<and> in_lang s v)"
| "in_lang (Star r) w = in_star (in_lang r) w"

lemma nullable_in_lang: "nullable r \<longleftrightarrow> in_lang r []"
  by (induction r) (auto intro: in_star.nil)

lemma in_lang_seq_s: "in_lang (seq_s r s) w = in_lang (Seq r s) w"
  by (induction r s rule: seq_s.induct) auto

lemma in_lang_alt_s: "in_lang (alt_s r s) w = in_lang (Alt r s) w"
  by (induction r s rule: alt_s.induct) auto

text \<open>The first character of a word of a repetition belongs to a non-empty factor.\<close>

lemma in_star_Cons:
  "in_star L (c # w) \<longleftrightarrow> (\<exists>u v. w = u @ v \<and> L (c # u) \<and> in_star L v)"
proof
  assume "in_star L (c # w)"
  then show "\<exists>u v. w = u @ v \<and> L (c # u) \<and> in_star L v"
  proof (induction "c # w" arbitrary: c w rule: in_star.induct)
    case (app u v)
    then show ?case by (cases u) auto
  qed
next
  assume "\<exists>u v. w = u @ v \<and> L (c # u) \<and> in_star L v"
  then show "in_star L (c # w)" using in_star.app by fastforce
qed

lemma in_lang_deriv: "in_lang (deriv c r) w \<longleftrightarrow> in_lang r (c # w)"
proof (induction r arbitrary: w)
  case (Seq r s)
  have "(\<exists>u v. c # w = u @ v \<and> in_lang r u \<and> in_lang s v) \<longleftrightarrow>
      in_lang r [] \<and> in_lang s (c # w) \<or> (\<exists>u v. w = u @ v \<and> in_lang r (c # u) \<and> in_lang s v)"
    by (auto simp: Cons_eq_append_conv)
  with Seq show ?case by (auto simp: in_lang_seq_s in_lang_alt_s nullable_in_lang)
next
  case (Star r)
  then show ?case by (simp add: in_lang_seq_s in_star_Cons)
qed (auto simp: in_lang_alt_s)

lemma rx_match_correct: "rx_match r w \<longleftrightarrow> in_lang r w"
  by (induction r w rule: rx_match.induct) (auto simp: nullable_in_lang in_lang_deriv)

subsection \<open>What the abbreviations denote\<close>

lemma in_lang_lit [simp]: "in_lang (lit s) w \<longleftrightarrow> w = s"
  unfolding lit_def by (induction s arbitrary: w) auto

lemma in_star_Cls: "in_star (in_lang (Cls p)) w \<longleftrightarrow> (\<forall>c \<in> set w. p c)"
proof (induction w)
  case (Cons c w)
  then show ?case by (auto simp: in_star_Cons)
qed (simp add: in_star.nil)

lemma in_lang_plus_Cls: "in_lang (plus (Cls p)) w \<longleftrightarrow> w \<noteq> [] \<and> (\<forall>c \<in> set w. p c)"
proof -
  have "in_lang (plus (Cls p)) w \<longleftrightarrow> (\<exists>c v. w = c # v \<and> p c \<and> in_star (in_lang (Cls p)) v)"
    by (auto simp: plus_def append_eq_Cons_conv) (metis append_Cons append_Nil)
  then show ?thesis by (cases w) (auto simp: in_star_Cls simp del: in_lang.simps)
qed

lemma in_lang_Star_any [simp]: "in_star (in_lang any_char) w"
  by (simp add: any_char_def in_star_Cls del: in_lang.simps)

lemma rx_search_correct: "rx_search r s \<longleftrightarrow> (\<exists>a w b. s = a @ w @ b \<and> in_lang r w)"
  by (auto simp: rx_search_def rx_match_correct)

section \<open>The interface of a regular-expression engine\<close>

locale regex_engine =
  fixes matches :: "rexp \<Rightarrow> string \<Rightarrow> bool"
  assumes matches_lang: "matches r w \<longleftrightarrow> in_lang r w"
begin

lemma matches_lit: "matches (lit s) w \<longleftrightarrow> w = s"
  by (simp add: matches_lang)

lemma matches_unique: "matches = rx_match"
  by (simp add: fun_eq_iff matches_lang rx_match_correct)

end

interpretation std_regex: regex_engine rx_match
  by unfold_locales (rule rx_match_correct)

end
