(* ===== verification/Boost_Lib.thy ===== *)
theory Boost_Lib
  imports Regex
begin

text \<open>
  The operations of the Boost libraries the sources call on strings. Boost is not part of the
  repository, so a component that calls it takes a \<open>boost_lib\<close> as an argument, and a lemma
  that relies on what Boost documents has the locale predicate \<open>boost\<close> as a hypothesis.
  \<open>boost_ref\<close> is a concrete instance: it shows the hypothesis can hold and lets examples run.
\<close>

record boost_lib =
  to_upper_copy :: "string \<Rightarrow> string"
  trim_copy :: "string \<Rightarrow> string"
  trim_copy_if :: "(char \<Rightarrow> bool) \<Rightarrow> string \<Rightarrow> string"
  replace_all :: "string \<Rightarrow> string \<Rightarrow> string \<Rightarrow> string"
  xpressive_match :: "rexp \<Rightarrow> string \<Rightarrow> bool"

text \<open>
  \<^verbatim>\<open>boost::replace_all(s, pat, sub)\<close>: the occurrences of a non-empty \<open>pat\<close>, from left to right
  and not overlapping, are replaced.
\<close>

fun replace_each :: "string \<Rightarrow> string \<Rightarrow> string \<Rightarrow> string" where
  "replace_each pat sub [] = []"
| "replace_each pat sub (c # cs) =
     (if pat \<noteq> [] \<and> take (length pat) (c # cs) = pat
      then sub @ replace_each pat sub (drop (length pat - 1) cs)
      else c # replace_each pat sub cs)"

locale boost =
  regex_engine "xpressive_match B" for B :: "('a) boost_lib_scheme" +
  assumes to_upper_doc: "to_upper_copy B s = map toupper s"
    and trim_doc: "trim_copy B s = trim_if isspace s"
    and trim_if_doc: "trim_copy_if B p s = trim_if p s"
    and replace_all_doc: "pat \<noteq> [] \<Longrightarrow> replace_all B pat sub s = replace_each pat sub s"

definition boost_ref :: boost_lib where
  "boost_ref = \<lparr>to_upper_copy = map toupper, trim_copy = trim_if isspace, trim_copy_if = trim_if,
     replace_all = replace_each, xpressive_match = rx_match\<rparr>"

interpretation ref_boost: boost boost_ref
  by unfold_locales (simp_all add: boost_ref_def rx_match_correct)

lemma boost_ref_documented: "boost boost_ref"
  by (rule ref_boost.boost_axioms)

end
