(* ===== verification/Utils.thy ===== *)
theory Utils
  imports Http_Types Boost_Lib
begin

text \<open>
  The helpers of \<^verbatim>\<open>src/utils.cc\<close>: the checks a session makes on the raw text of a request, the pieces
  a response is printed from, percent-decoding, and the plain-text response the simple handlers
  return. The patterns are compiled by \<^verbatim>\<open>boost::xpressive\<close>; they are given here as regular
  expressions, and the engine that matches them is the parameter \<open>B\<close>.
\<close>

section \<open>Checks on a request\<close>

text \<open>The value of the enumerator of the method, or \<open>-1\<close>.\<close>

definition check_method :: "string \<Rightarrow> int" where
  "check_method s =
     (if s = ''GET'' then method_index GET
      else if s = ''POST'' then method_index POST
      else if s = ''PUT'' then method_index PUT
      else if s = ''DELETE'' then method_index DELETE
      else if s = ''HEAD'' then method_index HEAD
      else if s = ''CONNECT'' then method_index CONNECT
      else if s = ''OPTIONS'' then method_index OPTIONS
      else if s = ''TRACE'' then method_index TRACE
      else if s = ''PATCH'' then method_index PATCH
      else -1)"

text \<open>\<^verbatim>\<open>([a-zA-Z]+(-([a-zA-z]+))*):\s*(.*)\<close>; the second range runs from \<^verbatim>\<open>A\<close> to the small \<^verbatim>\<open>z\<close>.\<close>

definition header_pattern :: rexp where
  "header_pattern =
     Seq (plus (Cls alpha))
    (Seq (Star (Seq (lit ''-'') (plus (Cls (\<lambda>c. islower c \<or> CHR ''A'' \<le> c \<and> c \<le> CHR ''z'')))))
    (Seq (lit '':'')
    (Seq (Star (Cls isspace)) (Star any_char))))"

definition check_header :: "boost_lib \<Rightarrow> string \<Rightarrow> bool" where
  "check_header B header = xpressive_match B header_pattern header"

definition complete :: "string \<Rightarrow> nat \<Rightarrow> bool" where
  "complete request bytes_transferred = (request = crlf \<and> bytes_transferred = 2)"

definition filter_CRLF :: "boost_lib \<Rightarrow> string \<Rightarrow> nat" where
  "filter_CRLF B request = length (replace_all B crlf [] request)"

text \<open>\<^verbatim>\<open>\s+(HTTP\/[1-2]\.[0-2])(\r\n)\<close>, the end of both patterns.\<close>

definition version_pattern :: rexp where
  "version_pattern =
     Seq (plus (Cls isspace))
    (Seq (lit ''HTTP/'')
    (Seq (Cls (\<lambda>c. c \<in> {CHR ''1'', CHR ''2''}))
    (Seq (lit ''.'')
    (Seq (Cls (\<lambda>c. c \<in> {CHR ''0'', CHR ''1'', CHR ''2''})) (lit crlf)))))"

text \<open>\<^verbatim>\<open>[A-Z]+\s(\/.*)\<close>, then the version.\<close>

definition request_line_pattern :: rexp where
  "request_line_pattern =
     Seq (plus (Cls isupper)) (Seq (Cls isspace) (Seq (lit ''/'') (Seq (Star any_char) version_pattern)))"

text \<open>
  \<^verbatim>\<open>([A-Za-z]+)\s(http:\/\/www\.|https:\/\/www\.|http:\/\/|https:\/\/)([\w-\d]+\.)+([\w-\d]+)(\/.*)\<close>,
  then the version. The hyphen stands between two classes and is a character of its own.
\<close>

definition host_char :: "char \<Rightarrow> bool" where
  "host_char c = (word_char c \<or> c = CHR ''-'' \<or> isdigit c)"

definition absolute_path_pattern :: rexp where
  "absolute_path_pattern =
     Seq (plus (Cls alpha))
    (Seq (Cls isspace)
    (Seq (Alt (lit ''http://www.'') (Alt (lit ''https://www.'') (Alt (lit ''http://'') (lit ''https://''))))
    (Seq (plus (Seq (plus (Cls host_char)) (lit ''.'')))
    (Seq (plus (Cls host_char))
    (Seq (lit ''/'') (Seq (Star any_char) version_pattern))))))"

definition check_requestLine :: "boost_lib \<Rightarrow> string \<Rightarrow> bool" where
  "check_requestLine B request =
     (xpressive_match B request_line_pattern request \<or> xpressive_match B absolute_path_pattern request)"

text \<open>
  The loop over the header lines: an empty line ends it with success, the end of the text without
  one, or a line that is no header, with failure.
\<close>

lemma header_rest_shorter:
  "substr_from s (line + 2) = Inr s' \<Longrightarrow> line \<noteq> -1 \<Longrightarrow> -1 \<le> line \<Longrightarrow> length s' < length s"
  by (auto simp: substr_def split: if_splits)

function check_headers :: "boost_lib \<Rightarrow> string \<Rightarrow> bool outcome" where
  "check_headers B request =
     (let line = str_find crlf request in
      if line = -1 then Inr False
      else bind_out (substr request 0 line) (\<lambda>header.
        if \<not> check_header B header \<and> header \<noteq> [] then Inr False
        else if header = [] then Inr True
        else bind_out (substr_from request (line + 2)) (check_headers B)))"
  by pat_completeness auto
termination
  by (relation "measure (\<lambda>(B, s). length s)") (auto dest: header_rest_shorter simp: str_find_ge)

declare check_headers.simps [simp del]

definition check_request :: "boost_lib \<Rightarrow> string \<Rightarrow> bool outcome" where
  "check_request B request =
     (let line = str_find crlf request in
      bind_out (substr request 0 line) (\<lambda>first.
        let request_line = first @ crlf in
        if \<not> check_requestLine B request_line then Inr False
        else bind_out (substr_from request (line + 2)) (\<lambda>rest.
          let pos = str_find [SP] request_line in
          bind_out (substr request_line 0 pos) (\<lambda>meth.
            if check_method meth < 0 then Inr False else check_headers B rest))))"

section \<open>Pieces of a response\<close>

definition format_status :: "string \<Rightarrow> string" where
  "format_status status = ''HTTP/1.1 '' @ status @ crlf"

definition format_header :: "string \<Rightarrow> string \<Rightarrow> string" where
  "format_header key val = key @ '': '' @ val @ crlf"

definition format_end :: string where
  "format_end = crlf"

text \<open>
  The target of the request line. The length \<^verbatim>\<open>line - pos\<close> is an \<^verbatim>\<open>int\<close>, negative when the text has
  no line break, and then selects the rest.
\<close>

definition getContent :: "string \<Rightarrow> string outcome" where
  "getContent request =
     (let line = str_find crlf request in
      bind_out (substr request 0 line) (\<lambda>first.
        let request_line = first @ crlf;
            pos = str_find [SP] request_line in
        bind_out (substr first (pos + 1) (line - pos)) (\<lambda>content.
          substr content 0 (str_find [SP] content))))"

text \<open>Percent-decoding: a \<^verbatim>\<open>%\<close> that no hexadecimal number follows is dropped.\<close>

fun url_decode :: "string \<Rightarrow> string" where
  "url_decode [] = []"
| "url_decode (c # cs) =
     (if c = CHR ''%'' then
        (if 2 \<le> length cs then
           (case read_hex (take 2 cs) of
              Some v \<Rightarrow> char_of_int v # url_decode (drop 2 cs)
            | None \<Rightarrow> url_decode cs)
         else url_decode cs)
      else if c = CHR ''+'' then SP # url_decode cs
      else c # url_decode cs)"

definition plain_text_response :: "string \<Rightarrow> StatusCode \<Rightarrow> response" where
  "plain_text_response txt code =
     \<lparr>res_code = code,
      res_headers = smap_update ''Connection'' ''close''
        (smap_update ''Content-length'' (to_string (length txt))
          (smap_update ''Content-type'' ''text/plain'' [])),
      res_body = txt, res_src_type = 0\<rparr>"

section \<open>The first line break\<close>

lemma crlf_absent: "str_find crlf s = -1 \<longleftrightarrow> \<not> sublist crlf s"
  by (rule str_find_absent) simp

lemma str_find_crlf:
  "\<not> sublist crlf l \<Longrightarrow> str_find crlf (l @ CR # LF # r) = int (length l)"
proof (induction l)
  case (Cons c l)
  have "\<not> prefix crlf (c # l)" "\<not> sublist crlf l" using Cons.prems by (auto simp: sublist_Cons_right)
  then have "take (length crlf) ((c # l) @ CR # LF # r) \<noteq> crlf" by (cases l) auto
  then show ?case using Cons.IH [OF \<open>\<not> sublist crlf l\<close>] by (auto simp: Let_def)
qed (simp add: str_find_self)

lemma first_line:
  assumes "str_find crlf s \<noteq> -1"
  obtains l r where "s = l @ CR # LF # r" "\<not> sublist crlf l" "str_find crlf s = int (length l)"
proof -
  have "\<exists>l r. s = l @ CR # LF # r \<and> \<not> sublist crlf l"
    using assms unfolding crlf_absent not_not
  proof (induction s)
    case (Cons c s)
    show ?case
    proof (cases "prefix crlf (c # s)")
      case True
      then obtain r where "c # s = [] @ CR # LF # r" unfolding prefix_def by auto
      then show ?thesis by (metis sublist_Nil_right list.discI)
    next
      case False
      with Cons obtain l r where l: "s = l @ CR # LF # r" "\<not> sublist crlf l" by (auto simp: sublist_Cons_right)
      with False have "\<not> prefix crlf (c # l)" by (auto simp: prefix_def)
      with l have "c # s = (c # l) @ CR # LF # r \<and> \<not> sublist crlf (c # l)" by (auto simp: sublist_Cons_right)
      then show ?thesis by blast
    qed
  qed simp
  then show ?thesis using that str_find_crlf by metis
qed

lemma first_line_unique:
  assumes "\<not> sublist crlf l" "\<not> sublist crlf l'" "l @ CR # LF # r = l' @ CR # LF # r'"
  shows "l = l' \<and> r = r'"
proof -
  have "length l = length l'" using str_find_crlf [OF assms(1), of r] str_find_crlf [OF assms(2), of r'] assms(3) by simp
  with assms(3) show ?thesis by simp
qed

lemma substr_line:
  "substr (l @ CR # LF # r) 0 (int (length l)) = Inr l" "substr_from (l @ CR # LF # r) (int (length l) + 2) = Inr r"
  by (simp_all add: substr_def nat_add_distrib)

section \<open>The check of a whole request\<close>

text \<open>Lines that are headers, each ended by a line break, then an empty line.\<close>

definition header_lines :: "boost_lib \<Rightarrow> string list \<Rightarrow> bool" where
  "header_lines B hs = (\<forall>h \<in> set hs. h \<noteq> [] \<and> \<not> sublist crlf h \<and> check_header B h)"

definition lines :: "string list \<Rightarrow> string" where
  "lines hs = concat (map (\<lambda>h. h @ crlf) hs)"

lemma lines_simps [simp]: "lines [] = []" "lines (h # hs) = h @ CR # LF # lines hs"
  by (simp_all add: lines_def)

lemma check_headers_no_line: "\<not> sublist crlf s \<Longrightarrow> check_headers B s = Inr False"
  using crlf_absent [of s] by (subst check_headers.simps) simp

lemma check_headers_line:
  "\<not> sublist crlf l \<Longrightarrow> check_headers B (l @ CR # LF # r) =
     (if l = [] then Inr True else if check_header B l then check_headers B r else Inr False)"
  by (subst check_headers.simps) (simp add: str_find_crlf substr_line)

lemma header_lines_first:
  assumes "\<not> sublist crlf l"
  shows "(\<exists>hs rest. l @ CR # LF # r = lines hs @ CR # LF # rest \<and> header_lines B hs) \<longleftrightarrow>
    l = [] \<or> (check_header B l \<and> (\<exists>hs rest. r = lines hs @ CR # LF # rest \<and> header_lines B hs))" (is "?A \<longleftrightarrow> ?B")
proof
  assume ?A
  then obtain hs rest where hs: "l @ CR # LF # r = lines hs @ CR # LF # rest" "header_lines B hs" by blast
  show ?B
  proof (cases hs)
    case Nil
    with hs assms first_line_unique [of l "[]" r rest] show ?thesis by simp
  next
    case (Cons h hs')
    with hs assms first_line_unique [of l h r "lines hs' @ CR # LF # rest"] show ?thesis
      by (auto simp: header_lines_def)
  qed
next
  assume ?B
  then consider "l = []" | hs rest where "l \<noteq> []" "check_header B l" "r = lines hs @ CR # LF # rest" "header_lines B hs" by blast
  then show ?A
  proof cases
    case 1
    then have "l @ CR # LF # r = lines [] @ CR # LF # r \<and> header_lines B []" by (simp add: header_lines_def)
    then show ?A by blast
  next
    case (2 hs rest)
    then have "l @ CR # LF # r = lines (l # hs) @ CR # LF # rest \<and> header_lines B (l # hs)"
      using assms by (simp add: header_lines_def)
    then show ?A by blast
  qed
qed

lemma check_headers_spec:
  "check_headers B s = Inr (\<exists>hs rest. s = lines hs @ CR # LF # rest \<and> header_lines B hs)"
proof (induction "length s" arbitrary: s rule: less_induct)
  case less
  show ?case
  proof (cases "str_find crlf s = -1")
    case True
    then have "\<not> sublist crlf s" by (simp add: crlf_absent)
    moreover from this have "s \<noteq> lines hs @ CR # LF # rest" for hs rest
      unfolding sublist_def by fastforce
    ultimately show ?thesis by (simp add: check_headers_no_line)
  next
    case False
    then obtain l r where s: "s = l @ CR # LF # r" "\<not> sublist crlf l" by (rule first_line)
    show ?thesis
      unfolding s(1) header_lines_first [OF s(2)] using less [of r] s(1) by (simp add: check_headers_line [OF s(2)])
  qed
qed

subsection \<open>Requests that are accepted\<close>

lemma empty_line_rejected: "boost B \<Longrightarrow> \<not> check_requestLine B crlf"
proof -
  assume "boost B"
  then have "xpressive_match B = rx_match" by (intro regex_engine.matches_unique boost.axioms)
  moreover have "\<not> rx_match request_line_pattern crlf" "\<not> rx_match absolute_path_pattern crlf" by code_simp+
  ultimately show ?thesis by (simp add: check_requestLine_def)
qed

lemma takeWhile_to: "c \<notin> set xs \<Longrightarrow> takeWhile (\<lambda>x. x \<noteq> c) (xs @ c # ys) = xs"
  by (induction xs) auto

lemma substr_to_blank: "substr s 0 (str_find [SP] s) = Inr (takeWhile (\<lambda>c. c \<noteq> SP) s)"
proof (cases "SP \<in> set s")
  case True
  then obtain xs ys where "s = xs @ SP # ys" "SP \<notin> set xs" by (meson split_list_first)
  then show ?thesis by (simp add: str_find_char_split takeWhile_to)
next
  case False
  then have "str_find [SP] s = -1" by (simp add: str_find_char_absent)
  moreover have "takeWhile (\<lambda>c. c \<noteq> SP) s = s" using False by (intro takeWhile_eq_all_conv [THEN iffD2]) auto
  ultimately show ?thesis by (simp only: substr_whole)
qed

lemma not_sublist_tl: "\<not> sublist ps s \<Longrightarrow> \<not> sublist ps (drop n s)"
  by (meson sublist_drop sublist_order.order_trans)

lemma check_request_line:
  assumes "\<not> sublist crlf l"
  shows "check_request B (l @ CR # LF # r) =
    Inr (check_requestLine B (l @ crlf) \<and> 0 \<le> check_method (takeWhile (\<lambda>c. c \<noteq> SP) (l @ crlf)) \<and>
         (\<exists>hs rest. r = lines hs @ crlf @ rest \<and> header_lines B hs))"
  using assms by (simp add: check_request_def str_find_crlf substr_line substr_to_blank check_headers_spec Let_def)

text \<open>
  \<^bold>\<open>C23.\<close> The check of a request decides exactly this, and never throws: the text consists of a first
  line that is a request line with one of the nine methods, header lines, an empty line, and
  anything after it.
\<close>

theorem check_request_spec:
  assumes "boost B"
  shows "check_request B s =
    Inr (\<exists>l hs rest. s = l @ crlf @ lines hs @ crlf @ rest \<and> \<not> sublist crlf l \<and> header_lines B hs \<and>
           check_requestLine B (l @ crlf) \<and> 0 \<le> check_method (takeWhile (\<lambda>c. c \<noteq> SP) (l @ crlf)))"
    (is "_ = Inr ?spec")
proof (cases "str_find crlf s = -1")
  case True
  then have no: "\<not> sublist crlf s" by (simp add: crlf_absent)
  then have "\<not> ?spec" unfolding sublist_def by fastforce
  moreover have "check_request B s = Inr False"
  proof (cases s)
    case Nil
    then show ?thesis using empty_line_rejected [OF assms] by (simp add: check_request_def substr_def)
  next
    case (Cons c cs)
    then have "substr_from s 1 = Inr (drop 1 s)" by (simp add: substr_def)
    with True show ?thesis
      using check_headers_no_line [OF not_sublist_tl [OF no]]
      by (simp add: check_request_def Let_def substr_to_blank)
  qed
  ultimately show ?thesis by simp
next
  case False
  then obtain l r where s: "s = l @ CR # LF # r" "\<not> sublist crlf l" by (rule first_line)
  have "?spec \<longleftrightarrow> check_requestLine B (l @ crlf) \<and> 0 \<le> check_method (takeWhile (\<lambda>c. c \<noteq> SP) (l @ crlf)) \<and>
      (\<exists>hs rest. r = lines hs @ crlf @ rest \<and> header_lines B hs)"
    using s first_line_unique [of l _ r] by auto
  then show ?thesis
    using check_request_line [OF s(2), of B r] s(1) by simp
qed

theorem check_request_spec_witness:
  "check_request boost_ref (''GET /a HTTP/1.1'' @ crlf @ ''A: b'' @ crlf @ crlf) = Inr True"
proof -
  have "''GET /a HTTP/1.1'' @ crlf @ ''A: b'' @ crlf @ crlf = ''GET /a HTTP/1.1'' @ crlf @ lines [''A: b''] @ crlf @ []"
      "\<not> sublist crlf ''GET /a HTTP/1.1''" "header_lines boost_ref [''A: b'']"
      "check_requestLine boost_ref (''GET /a HTTP/1.1'' @ crlf)"
      "0 \<le> check_method (takeWhile (\<lambda>c. c \<noteq> SP) (''GET /a HTTP/1.1'' @ crlf))"
    by code_simp+
  then show ?thesis unfolding check_request_spec [OF boost_ref_documented] by blast
qed

section \<open>Percent-decoding\<close>

text \<open>
  The encoding a client applies: letters and digits stand for themselves, a blank is a plus sign,
  every other character is a percent sign and two hexadecimal digits.
\<close>

definition hex_digit :: "nat \<Rightarrow> char" where
  "hex_digit d = (if d < 10 then digit_char d else char_of (55 + d))"

definition encode_char :: "char \<Rightarrow> string" where
  "encode_char c =
     (if alpha c \<or> isdigit c then [c] else if c = SP then ''+''
      else [CHR ''%'', hex_digit (of_char c div 16), hex_digit (of_char c mod 16)])"

definition url_encode :: "string \<Rightarrow> string" where
  "url_encode s = concat (map encode_char s)"

lemma hex_digit_facts:
  assumes "d < 16"
  shows "isxdigit (hex_digit d)" "xdigit_val (hex_digit d) = int d" "\<not> isspace (hex_digit d)"
    "hex_digit d \<notin> {CHR ''-'', CHR ''+'', CHR ''x'', CHR ''X''}"
proof -
  have "list_all (\<lambda>d. isxdigit (hex_digit d) \<and> xdigit_val (hex_digit d) = int d \<and> \<not> isspace (hex_digit d) \<and>
      hex_digit d \<notin> {CHR ''-'', CHR ''+'', CHR ''x'', CHR ''X''}) [0..<16]"
    by code_simp
  then show "isxdigit (hex_digit d)" "xdigit_val (hex_digit d) = int d" "\<not> isspace (hex_digit d)"
    "hex_digit d \<notin> {CHR ''-'', CHR ''+'', CHR ''x'', CHR ''X''}"
    using assms by (auto simp: list_all_iff)
qed

lemma read_hex_byte:
  assumes "n < 256"
  shows "read_hex [hex_digit (n div 16), hex_digit (n mod 16)] = Some (int n)"
proof -
  have d: "n div 16 < 16" "n mod 16 < 16" using assms by auto
  have "int n = 16 * int (n div 16) + int (n mod 16)"
    by (simp add: zdiv_int zmod_int)
  then show ?thesis
    using hex_digit_facts [OF d(1)] hex_digit_facts [OF d(2)]
    by (simp add: read_hex_def read_sign_def hex_val_def)
qed

lemma char_of_int_of_char: "char_of_int (int (of_char c)) = c"
proof -
  have "(of_char c :: nat) < 256" by simp
  then show ?thesis by (simp add: char_of_int_def nat_mod_as_int [symmetric] flip: zmod_int)
qed

text \<open>
  Decoding inverts the encoding of any byte string, control characters and bytes above 127
  included.
\<close>

theorem url_decode_encode: "url_decode (url_encode s) = s"
proof (induction s)
  case (Cons c s)
  have "(of_char c :: nat) < 256" by simp
  then have hex: "read_hex [hex_digit (of_char c div 16), hex_digit (of_char c mod 16)] = Some (int (of_char c))"
    by (rule read_hex_byte)
  have plain: "alpha c \<or> isdigit c \<Longrightarrow> c \<noteq> CHR ''%'' \<and> c \<noteq> CHR ''+''"
    by (auto simp: alpha_def isupper_def islower_def isdigit_def)
  show ?case
    using Cons hex plain by (auto simp: url_encode_def encode_char_def char_of_int_of_char)
qed (simp add: url_encode_def)

section \<open>The target of a request line\<close>

text \<open>
  The content taken out of a request is the second word of its first line.
\<close>

theorem getContent_target:
  assumes "\<not> sublist crlf (meth @ [SP] @ target @ [SP] @ version)" "SP \<notin> set meth" "SP \<notin> set target"
  shows "getContent (meth @ [SP] @ target @ [SP] @ version @ crlf @ rest) = Inr target"
proof -
  let ?l = "meth @ SP # target @ SP # version"
  have find: "str_find crlf (?l @ CR # LF # rest) = int (length ?l)" using assms(1) by (intro str_find_crlf) simp
  have "substr (?l @ CR # LF # rest) 0 (int (length ?l)) = Inr ?l" by (rule substr_line)
  moreover have "str_find [SP] (?l @ crlf) = int (length meth)"
    using str_find_char_split [OF assms(2), of "target @ SP # version @ crlf"] by simp
  moreover have "substr ?l (int (length meth) + 1) (int (length ?l) - int (length meth)) = Inr (target @ SP # version)"
    by (simp add: substr_def nat_add_distrib)
  moreover have "substr (target @ SP # version) 0 (str_find [SP] (target @ SP # version)) = Inr target"
    using takeWhile_to [OF assms(3)] by (simp only: substr_to_blank)
  ultimately show ?thesis using find by (simp add: getContent_def Let_def)
qed

theorem getContent_target_witness:
  "getContent (''GET'' @ [SP] @ ''/a'' @ [SP] @ ''HTTP/1.1'' @ crlf @ crlf) = Inr ''/a''"
  by (rule getContent_target) code_simp+

end
