(* ===== verification/Statics.thy ===== *)
theory Statics
  imports Cached_Page Config_Parser Utils
begin

text \<open>
  The static members the request handlers share, and the interface of a request handler. All
  handlers run against one set of statics: the records of \<^verbatim>\<open>StatusHandler::status\<close>, the pages of
  \<^verbatim>\<open>ProxyHandler::cached_pages\<close> and the roots of \<^verbatim>\<open>StaticFileHandler::locationToRoot\<close>.
\<close>

record statics =
  st_status :: "string list"
  st_cached_pages :: "cached_page smap"
  st_locationToRoot :: "string smap"

definition initial_statics :: statics where
  "initial_statics = \<lparr>st_status = [], st_cached_pages = [], st_locationToRoot = []\<rparr>"

type_synonym handler = "request \<Rightarrow> statics \<Rightarrow> (response \<times> statics) outcome"

text \<open>
  The type of a response: its headers are a map, and its source type is one of the five the handlers
  number (0 and 1 for texts, 2, 3 and 4 for files).
\<close>

definition response_wf :: "response \<Rightarrow> bool" where
  "response_wf res = (smap_wf (res_headers res) \<and> res_src_type res \<in> {0..4})"

text \<open>The maps of the statics are maps, and the cached responses have their type.\<close>

definition statics_wf :: "statics \<Rightarrow> bool" where
  "statics_wf s =
     (smap_wf (st_cached_pages s) \<and> smap_wf (st_locationToRoot s) \<and>
      (\<forall>(uri, page) \<in> set (st_cached_pages s). response_wf (cp_response page)))"

lemma response_wf_fields [simp]:
  "response_wf \<lparr>res_code = code, res_headers = hs, res_body = body, res_src_type = ty\<rparr> = (smap_wf hs \<and> 0 \<le> ty \<and> ty \<le> 4)"
  by (simp add: response_wf_def)

lemma initial_statics_wf: "statics_wf initial_statics"
  by (simp add: statics_wf_def initial_statics_def)

section \<open>Running a sequence of requests\<close>

fun serve :: "handler \<Rightarrow> request list \<Rightarrow> statics \<Rightarrow> (response list \<times> statics) outcome" where
  "serve handle [] s = Inr ([], s)"
| "serve handle (r # rs) s =
     bind_out (handle r s) (\<lambda>(res, s').
       bind_out (serve handle rs s') (\<lambda>(ress, s''). Inr (res # ress, s'')))"

text \<open>What the server relies on: handlers only add to the records, and keep the statics well formed.\<close>

locale request_handler =
  fixes handle :: handler
  assumes handle_wf: "statics_wf s \<Longrightarrow> handle r s = Inr (res, s') \<Longrightarrow> statics_wf s' \<and> response_wf res"
    and handle_log: "handle r s = Inr (res, s') \<Longrightarrow> prefix (st_status s) (st_status s')"
begin

lemma serve_wf:
  "statics_wf s \<Longrightarrow> serve handle rs s = Inr (ress, s') \<Longrightarrow>
   statics_wf s' \<and> length ress = length rs \<and> (\<forall>res \<in> set ress. response_wf res)"
proof (induction rs arbitrary: s ress)
  case (Cons r rs)
  then obtain res s1 ress1 where *: "handle r s = Inr (res, s1)" "serve handle rs s1 = Inr (ress1, s')" "ress = res # ress1"
    by (auto simp: bind_out_Inr)
  with Cons.prems handle_wf have "statics_wf s1" "response_wf res" by blast+
  with Cons.IH * show ?case by auto
qed simp

lemma serve_log: "serve handle rs s = Inr (ress, s') \<Longrightarrow> prefix (st_status s) (st_status s')"
proof (induction rs arbitrary: s ress)
  case (Cons r rs)
  then obtain res s1 ress1 where "handle r s = Inr (res, s1)" "serve handle rs s1 = Inr (ress1, s')"
    by (auto simp: bind_out_Inr)
  with Cons.IH handle_log show ?case by (blast intro: prefix_order.trans)
qed simp

end

text \<open>
  A response as a text: the length it announces is the length of its body, and it is sent in one
  piece.
\<close>

definition framed_text :: "response \<Rightarrow> bool" where
  "framed_text res =
     (smap_lookup (res_headers res) ''Content-length'' = Some (to_string (length (res_body res))) \<and>
      smap_lookup (res_headers res) ''Connection'' = Some ''close'' \<and> res_src_type res < 2)"

text \<open>
  The handlers that answer with a text of their own: they always answer, leave the caches alone
  and record exactly one line per request.
\<close>

locale text_handler = request_handler +
  assumes handle_total: "completes (handle r s)"
    and handle_framed: "handle r s = Inr (res, s') \<Longrightarrow> framed_text res"
    and handle_one: "handle r s = Inr (res, s') \<Longrightarrow> \<exists>entry. s' = s\<lparr>st_status := st_status s @ [entry]\<rparr>"
begin

lemma serve_text:
  obtains ress entries where "serve handle rs s = Inr (ress, s\<lparr>st_status := st_status s @ entries\<rparr>)"
    "length ress = length rs" "length entries = length rs" "list_all framed_text ress"
proof (induction rs arbitrary: s thesis)
  case Nil
  show ?case by (rule Nil [of "[]" "[]"]) simp_all
next
  case (Cons r rs)
  obtain res s1 where h: "handle r s = Inr (res, s1)" using handle_total [of r s] by (auto simp: completes_iff)
  then obtain e where s1: "s1 = s\<lparr>st_status := st_status s @ [e]\<rparr>" using handle_one by blast
  obtain ress es where "serve handle rs s1 = Inr (ress, s1\<lparr>st_status := st_status s1 @ es\<rparr>)"
      "length ress = length rs" "length es = length rs" "list_all framed_text ress"
    by (rule Cons.IH)
  then show ?case using handle_framed [OF h] by (intro Cons.prems [of "res # ress" "e # es"]) (simp_all add: h s1)
qed

end

end
