(* ===== verification/Simple_Handlers.thy ===== *)
theory Simple_Handlers
  imports Statics
begin

text \<open>
  The handlers that answer with a text of their own: \<^verbatim>\<open>src/status_handler.cc\<close>,
  \<^verbatim>\<open>src/echo_handler.cc\<close>, \<^verbatim>\<open>src/error_handler.cc\<close> and \<^verbatim>\<open>src/health_handler.cc\<close>. Every one of them
  implements the interface \<open>text_handler\<close>.
\<close>

section \<open>StatusHandler\<close>

definition statusToStr :: "StatusCode \<Rightarrow> string" where
  "statusToStr code =
     (if code = sc_ok then ''200'' else if code = sc_not_found then ''404''
      else if code = sc_bad_request then ''400'' else [])"

definition record_text :: "string \<Rightarrow> string \<Rightarrow> StatusCode \<Rightarrow> string" where
  "record_text uri handlerName code =
     ''URI: '' @ uri @ [LF] @
     (if handlerName = [] then ''Handler: None'' @ [LF] else ''Handler: '' @ handlerName @ [LF]) @
     ''Status Code: '' @ statusToStr code @ [LF, LF]"

text \<open>\<open>addRecord\<close> appends the record and returns it.\<close>

definition addRecord :: "string \<Rightarrow> string \<Rightarrow> StatusCode \<Rightarrow> statics \<Rightarrow> string \<times> statics" where
  "addRecord uri handlerName code s =
     (let rec = record_text uri handlerName code in (rec, s\<lparr>st_status := st_status s @ [rec]\<rparr>))"

definition getStatusCode :: "string \<Rightarrow> StatusCode" where
  "getStatusCode handlerName =
     (if handlerName = ''EchoHandler'' \<or> handlerName = ''StaticHandler'' \<or> handlerName = ''StatusHandler''
      then sc_ok else sc_not_found)"

definition getAllStatus :: "statics \<Rightarrow> string" where
  "getAllStatus s =
     ''Total Requests: '' @ to_string (length (st_status s)) @ [LF, LF] @ concat (st_status s)"

definition Status_handleRequest :: handler where
  "Status_handleRequest r s =
     (case addRecord (req_uri r) ''StatusHandler'' sc_ok s of
        (_, s') \<Rightarrow> Inr (plain_text_response (getAllStatus s') sc_ok, s'))"

section \<open>EchoHandler\<close>

text \<open>What follows the last slash; without a slash the position is \<^verbatim>\<open>npos + 1\<close>, that is \<open>0\<close>.\<close>

definition getEchoBody :: "string \<Rightarrow> string outcome" where
  "getEchoBody uri = substr uri (find_last_of (CHR ''/'') uri + 1) (int (length uri))"

definition Echo_handleRequest :: handler where
  "Echo_handleRequest r s =
     (case addRecord (req_uri r) ''EchoHandler'' sc_ok s of
        (_, s') \<Rightarrow> bind_out (getEchoBody (req_uri r)) (\<lambda>body. Inr (plain_text_response body sc_ok, s')))"

text \<open>The text \<open>handler\<close> passes to \<^verbatim>\<open>session::send_response\<close>.\<close>

definition Echo_getResponse :: "string \<Rightarrow> bool \<Rightarrow> string outcome" where
  "Echo_getResponse request valid =
     bind_out
       (if valid then
          bind_out (getContent request) (\<lambda>content.
            bind_out (substr content 1 (int (length content))) (\<lambda>content'.
              Inr (url_decode content', format_status ''200 OK'')))
        else Inr (request, format_status ''400 Bad Request''))
       (\<lambda>(content, status).
          Inr (status @ format_header ''Content-type'' ''text/plain'' @
               format_header ''Content-length'' (to_string (length content)) @
               format_header ''Connection'' ''close'' @ format_end @ content))"

section \<open>ErrorHandler and HealthHandler\<close>

definition Error_handleRequest :: handler where
  "Error_handleRequest r s =
     (case addRecord (req_uri r) ''ErrorHandler'' sc_not_found s of
        (_, s') \<Rightarrow> Inr (plain_text_response ''No Content Found! Check request format!'' sc_not_found, s'))"

definition Health_handleRequest :: handler where
  "Health_handleRequest r s =
     (case addRecord (req_uri r) ''HealthHandler'' sc_ok s of
        (_, s') \<Rightarrow> Inr (plain_text_response ''OK'' sc_ok, s'))"

section \<open>The interface\<close>

lemmas simple_handlers = Status_handleRequest_def Echo_handleRequest_def Error_handleRequest_def
  Health_handleRequest_def addRecord_def Let_def

lemma plain_text_lookup:
  "smap_lookup (res_headers (plain_text_response t code)) =
     [''Content-type'' \<mapsto> ''text/plain'', ''Content-length'' \<mapsto> to_string (length t), ''Connection'' \<mapsto> ''close'']"
  by (simp add: plain_text_response_def smap_lookup_update fun_eq_iff del: smap_update.simps)

lemma plain_text_wf: "response_wf (plain_text_response t code)"
  by (simp add: plain_text_response_def smap_wf_update del: smap_update.simps)

lemma plain_text_framed: "framed_text (plain_text_response t code)"
  by (simp add: framed_text_def plain_text_lookup) (simp add: plain_text_response_def)

lemma statics_wf_status: "statics_wf (s\<lparr>st_status := l\<rparr>) = statics_wf s"
  by (simp add: statics_wf_def)

lemma getEchoBody_total: "completes (getEchoBody uri)"
  using find_last_of_less [of "CHR ''/''" uri] find_last_of_ge [of "CHR ''/''" uri]
  unfolding getEchoBody_def by (intro substr_in_range) linarith+

lemma getEchoBody_cases: "\<exists>b. getEchoBody uri = Inr b"
  using getEchoBody_total [of uri] by (simp add: completes_iff)

lemma text_handlerI:
  assumes "\<And>r s. \<exists>t code entry. h r s = Inr (plain_text_response t code, s\<lparr>st_status := st_status s @ [entry]\<rparr>)"
  shows "text_handler h"
proof
  fix r s res s'
  obtain t code entry where h: "h r s = Inr (plain_text_response t code, s\<lparr>st_status := st_status s @ [entry]\<rparr>)"
    using assms by blast
  show "completes (h r s)" using h by simp
  assume "h r s = Inr (res, s')"
  with h have res: "res = plain_text_response t code" "s' = s\<lparr>st_status := st_status s @ [entry]\<rparr>" by simp_all
  then show "framed_text res" "prefix (st_status s) (st_status s')"
      "\<exists>entry. s' = s\<lparr>st_status := st_status s @ [entry]\<rparr>"
    by (auto simp: plain_text_framed)
  assume "statics_wf s"
  with res show "statics_wf s' \<and> response_wf res" by (simp add: statics_wf_status plain_text_wf)
qed

interpretation status_h: text_handler Status_handleRequest
  by (rule text_handlerI) (auto simp: simple_handlers)

lemma Echo_handleRequest_answers:
  "\<exists>t. Echo_handleRequest r s =
     Inr (plain_text_response t sc_ok, s\<lparr>st_status := st_status s @ [record_text (req_uri r) ''EchoHandler'' sc_ok]\<rparr>)"
  using getEchoBody_cases [of "req_uri r"] by (auto simp: simple_handlers)

interpretation echo_h: text_handler Echo_handleRequest
  by (rule text_handlerI) (use Echo_handleRequest_answers in blast)

interpretation error_h: text_handler Error_handleRequest
  by (rule text_handlerI) (auto simp: simple_handlers)

interpretation health_h: text_handler Health_handleRequest
  by (rule text_handlerI) (auto simp: simple_handlers)

section \<open>What the handlers answer\<close>

text \<open>
  The echo handler answers with what follows the last slash of the target; a target without
  a slash is echoed whole.
\<close>

theorem echo_answers_last_segment:
  assumes "CHR ''/'' \<notin> set name"
  shows "(\<exists>s'. Echo_handleRequest (r\<lparr>req_uri := path @ CHR ''/'' # name\<rparr>) s = Inr (plain_text_response name sc_ok, s')) \<and>
    (\<exists>s'. Echo_handleRequest (r\<lparr>req_uri := name\<rparr>) s = Inr (plain_text_response name sc_ok, s'))"
  using assms by (simp_all add: simple_handlers getEchoBody_def find_last_of_split substr_def nat_add_distrib)

theorem echo_answers_last_segment_witness:
  "\<exists>s'. Echo_handleRequest (\<lparr>req_method = GET, req_uri = [], req_headers = [], req_body = [], req_version = []\<rparr>
       \<lparr>req_uri := ''/echo'' @ CHR ''/'' # ''hi''\<rparr>) initial_statics = Inr (plain_text_response ''hi'' sc_ok, s')"
  by (rule conjunct1 [OF echo_answers_last_segment]) simp

end
