(* ===== verification/Proxy_Handler.thy ===== *)
theory Proxy_Handler
  imports Simple_Handlers
begin

text \<open>
  The reverse proxy with its cache, \<^verbatim>\<open>src/proxy_handler.cc\<close>, and the handler that fetches absolute
  addresses through it, \<^verbatim>\<open>src/cache_handler.cc\<close>. The transfer itself is libcurl's: it is the
  parameter \<open>C\<close>, which says for a destination whether the options are accepted, how the transfer
  ends, and with which lines and chunks it calls the two callbacks. The clock is read at up to three
  points of a request; the readings are the parameter \<open>clk\<close>.
\<close>

section \<open>libcurl and the clock\<close>

datatype curl_opt = CURLOPT_URL | CURLOPT_FOLLOWLOCATION | CURLOPT_MAXREDIRS | CURLOPT_TIMEOUT

record transfer =
  tr_ok :: bool
  tr_code :: nat
  tr_header_lines :: "string list"
  tr_chunks :: "string list"

record curl =
  curl_init :: bool
  curl_setopt_ok :: "curl_opt \<Rightarrow> string \<Rightarrow> bool"
  curl_perform :: "string \<Rightarrow> transfer"

record clock =
  now_stale :: int
  now_expired :: int
  now_fresh :: int
  now_store :: int

section \<open>The object\<close>

record proxy_handler =
  serve_addr :: string
  proxy_addr :: string

definition setLocation :: "boost_lib \<Rightarrow> string \<Rightarrow> string \<Rightarrow> proxy_handler" where
  "setLocation B location_path proxy_pass =
     \<lparr>serve_addr = trim_copy_if B (\<lambda>c. c = QUOTE) location_path,
      proxy_addr = trim_copy_if B (\<lambda>c. c = QUOTE) proxy_pass\<rparr>"

text \<open>The first \<^verbatim>\<open>proxy_pass\<close> statement with an argument; \<^verbatim>\<open>tokens_[0]\<close> of no tokens is undefined.\<close>

fun find_proxy_pass :: "NginxConfigStatement list \<Rightarrow> string outcome" where
  "find_proxy_pass [] = Inr []"
| "find_proxy_pass (Statement ts child # stmts) =
     (case ts of
        [] \<Rightarrow> Inl Undefined_Behaviour
      | t # us \<Rightarrow>
          if t = ''proxy_pass'' \<and> 2 \<le> length ts then Inr (ts ! 1) else find_proxy_pass stmts)"

definition Proxy_Init :: "boost_lib \<Rightarrow> string \<Rightarrow> NginxConfig \<Rightarrow> proxy_handler outcome" where
  "Proxy_Init B location_path config =
     bind_out (find_proxy_pass (statements config)) (\<lambda>proxy_pass. Inr (setLocation B location_path proxy_pass))"

section \<open>Cache-Control directives\<close>

definition has_value :: "string \<Rightarrow> bool" where
  "has_value token =
     (str_find ''max-age'' token \<noteq> -1 \<or> str_find ''max-stale'' token \<noteq> -1 \<or> str_find ''min-fresh'' token \<noteq> -1)"

text \<open>The loop that checks the value overwrites its flag at every character.\<close>

definition isNum :: "string \<Rightarrow> bool" where
  "isNum given_val = foldl (\<lambda>_ c. isdigit c) True given_val"

definition directive :: "string \<Rightarrow> (string \<times> int) outcome" where
  "directive token =
     (if has_value token then
        let token_pos = str_find ''='' token in
        bind_out (substr_from token (token_pos + 1)) (\<lambda>given_val.
          bind_out (if isNum given_val then stoi given_val else Inr (-1)) (\<lambda>val.
            bind_out (substr token 0 token_pos) (\<lambda>name. Inr (name, val))))
      else Inr (token, 1))"

function directives :: "boost_lib \<Rightarrow> string \<Rightarrow> int smap \<Rightarrow> int smap outcome" where
  "directives B cache_dirs m =
     (let pos = str_find '','' cache_dirs in
      if pos \<noteq> -1 then
        bind_out (substr cache_dirs 0 pos) (\<lambda>token.
          bind_out (directive (trim_copy B token)) (\<lambda>(k, v).
            directives B (drop (nat pos + 1) cache_dirs) (smap_update k v m)))
      else bind_out (directive (trim_copy B cache_dirs)) (\<lambda>(k, v). Inr (smap_update k v m)))"
  by pat_completeness auto
termination
proof (relation "measure (\<lambda>(B, s, m). length s)")
  fix B cache_dirs m pos x k v y z
  assume "pos = str_find '','' cache_dirs" "pos \<noteq> -1"
  then have "cache_dirs \<noteq> []" by auto
  then show "((B, drop (nat pos + 1) cache_dirs, y), B, cache_dirs, m) \<in> measure (\<lambda>(B, s, m). length s)" by simp
qed auto

declare directives.simps [simp del]

definition parse_cache_hdrs :: "boost_lib \<Rightarrow> string smap \<Rightarrow> int smap outcome" where
  "parse_cache_hdrs B req_hdrs = directives B (map_at [] req_hdrs ''Cache-Control'') []"

section \<open>Decisions on the cache\<close>

text \<open>The three flags the caller passes by reference.\<close>

record cache_flags =
  can_use :: bool
  cache_only :: bool
  should_cache :: bool

text \<open>The verdict on a page that is present: whether it may be used, and the returned flag.\<close>

definition page_usable :: "clock \<Rightarrow> int smap \<Rightarrow> cached_page \<Rightarrow> bool \<times> bool" where
  "page_usable clk hdrs page =
     (let max_age = map_at 0 hdrs ''max-age''; max_stale = map_at 0 hdrs ''max-stale'';
          min_fresh = map_at 0 hdrs ''min-fresh'';
          (use, res) =
            (if max_age \<noteq> 0 \<and> max_stale \<noteq> 0 then
               let stale_ok = (\<not> max_age > max_stale) in
               if \<not> (stale_ok \<and> couldStale page max_stale (now_stale clk)) then (False, True)
               else if isExpired page max_age (now_expired clk) then (False, True)
               else (True, True)
             else if max_age \<noteq> 0 then
               let u = (\<not> isExpired page max_age (now_expired clk)) in (u, u)
             else if max_stale \<noteq> 0 then
               let u = couldStale page max_stale (now_stale clk) in (u, u)
             else (True, True))
      in if min_fresh \<noteq> 0 then
           let u = isFresh page min_fresh (now_fresh clk) in (u, if u then res else False)
         else (use, res))"

definition cache_control :: "clock \<Rightarrow> int smap \<Rightarrow> string \<Rightarrow> bool \<Rightarrow> cache_flags \<Rightarrow> statics \<Rightarrow>
    bool \<times> cache_flags \<times> statics" where
  "cache_control clk hdrs uri must_validate fl s =
     (case (if must_validate then None else smap_lookup (st_cached_pages s) uri) of
        Some page \<Rightarrow>
          (case page_usable clk hdrs page of (use, res) \<Rightarrow>
             if map_at 0 hdrs ''no-store'' \<noteq> 0
             then (True, fl\<lparr>can_use := False\<rparr>,
                   s\<lparr>st_cached_pages := smap_erase uri (st_cached_pages s)\<rparr>)
             else (res, fl\<lparr>can_use := use\<rparr>, s))
      | None \<Rightarrow>
          let fl1 = (if \<not> must_validate \<and> map_at 0 hdrs ''only-if-cached'' \<noteq> 0 then fl\<lparr>cache_only := True\<rparr> else fl);
              fl2 = (if map_at 0 hdrs ''no-store'' \<noteq> 0 then fl1\<lparr>should_cache := False\<rparr> else fl1)
          in (True, fl2, s))"

text \<open>\<^verbatim>\<open>cached_pages.at(req_uri)\<close> throws when there is no page.\<close>

definition use_cache :: "string \<Rightarrow> statics \<Rightarrow> (response \<times> statics) outcome" where
  "use_cache uri s =
     (case addRecord uri ''ProxyHandler'' sc_not_modified s of
        (_, s') \<Rightarrow>
          (case smap_lookup (st_cached_pages s') uri of
             None \<Rightarrow> Inl Out_Of_Range
           | Some page \<Rightarrow> Inr (get_cache page, s')))"

definition no_cache :: response where
  "no_cache = \<lparr>res_code = sc_gateway_timeout,
     res_headers = smap_update ''Connection'' ''close'' (smap_update ''Content-type'' ''text/plain'' []),
     res_body = [], res_src_type = 0\<rparr>"

definition store_cache :: "clock \<Rightarrow> string \<Rightarrow> response \<Rightarrow> statics \<Rightarrow> statics" where
  "store_cache clk uri res s =
     s\<lparr>st_cached_pages := smap_insert uri (new_cached_page res one_min (now_store clk)) (st_cached_pages s)\<rparr>"

section \<open>Rewriting pages\<close>

fun html_loop :: "string \<Rightarrow> string \<Rightarrow> string \<Rightarrow> string" where
  "html_loop target_addr curr_target [] = []"
| "html_loop target_addr curr_target (c # cs) =
     (if c \<noteq> QUOTE \<and> c \<noteq> CHR ''/'' then c # html_loop target_addr [] cs
      else if c = QUOTE then c # html_loop target_addr (curr_target @ [c]) cs
      else (if curr_target @ [c] = [QUOTE, CHR ''/''] then target_addr @ ''/'' else [c]) @ html_loop target_addr [] cs)"

definition target_addr :: "proxy_handler \<Rightarrow> string outcome" where
  "target_addr ph =
     bind_out (char_at (serve_addr ph) (int (length (serve_addr ph)) - 1)) (\<lambda>c.
       if c = CHR ''/'' then substr (serve_addr ph) 0 (int (length (serve_addr ph)) - 1)
       else Inr (serve_addr ph))"

definition parse_html_body :: "proxy_handler \<Rightarrow> string \<Rightarrow> string outcome" where
  "parse_html_body ph msg = bind_out (target_addr ph) (\<lambda>t. Inr (html_loop t [] msg))"

section \<open>The transfer\<close>

definition write_callback :: "string \<Rightarrow> string \<Rightarrow> string" where
  "write_callback chunk msg = msg @ chunk"

text \<open>A header line is cut at its line break; \<^verbatim>\<open>insert\<close> keeps a header seen before.\<close>

definition header_callback :: "string \<Rightarrow> string smap \<Rightarrow> string smap outcome" where
  "header_callback buffer header_map =
     (let hdr = takeWhile (\<lambda>c. c \<noteq> CR \<and> c \<noteq> LF) buffer;
          colon_pos = str_find '':'' hdr
      in if colon_pos \<noteq> -1 then
           bind_out (substr hdr 0 colon_pos) (\<lambda>name.
             bind_out (substr_from hdr (colon_pos + 2)) (\<lambda>val. Inr (smap_insert name val header_map)))
         else Inr header_map)"

fun read_header_lines :: "string list \<Rightarrow> string smap \<Rightarrow> string smap outcome" where
  "read_header_lines [] m = Inr m"
| "read_header_lines (l # ls) m = bind_out (header_callback l m) (read_header_lines ls)"

definition proxy_dest :: "proxy_handler \<Rightarrow> string \<Rightarrow> string outcome" where
  "proxy_dest ph uri =
     (if starts_with ''http'' uri then Inr uri
      else bind_out (str_replace uri (str_find (serve_addr ph) uri) (length (serve_addr ph)) []) (\<lambda>suffix.
        bind_out (char_at suffix 0) (\<lambda>c.
          if c \<noteq> CHR ''/'' then
            bind_out (char_at (proxy_addr ph) (int (length (proxy_addr ph)) - 1)) (\<lambda>d.
              Inr (proxy_addr ph @ (if d \<noteq> CHR ''/'' then CHR ''/'' # suffix else suffix)))
          else Inr (proxy_addr ph @ suffix))))"

definition error_response :: response where
  "error_response = \<lparr>res_code = sc_internal_server_error, res_headers = [], res_body = [], res_src_type = 0\<rparr>"

definition received :: "proxy_handler \<Rightarrow> transfer \<Rightarrow> string smap \<Rightarrow> response outcome" where
  "received ph t header_data =
     (let msg = fold write_callback (tr_chunks t) [] in
      bind_out
        (case smap_lookup header_data ''Content-Type'' of
           Some ty \<Rightarrow> if str_find ''text/html'' ty \<noteq> -1 then parse_html_body ph msg else Inr msg
         | None \<Rightarrow> Inr msg)
        (\<lambda>edited_msg. Inr
           \<lparr>res_code = code_of_number (tr_code t),
            res_headers = smap_erase ''Transfer-Encoding'' (smap_update ''Connection'' ''close''
              (smap_update ''Content-Length'' (to_string (length edited_msg))
                (fold (\<lambda>(k, v) m. smap_update k v m) header_data []))),
            res_body = edited_msg, res_src_type = 0\<rparr>))"

definition proxy_fetch :: "curl \<Rightarrow> proxy_handler \<Rightarrow> string \<Rightarrow> response outcome" where
  "proxy_fetch C ph dest =
     (if \<not> curl_init C then Inr error_response
      else if \<not> (curl_setopt_ok C CURLOPT_URL dest \<and> curl_setopt_ok C CURLOPT_FOLLOWLOCATION dest \<and>
                  curl_setopt_ok C CURLOPT_MAXREDIRS dest \<and> curl_setopt_ok C CURLOPT_TIMEOUT dest)
      then Inr error_response
      else let t = curl_perform C dest in
        bind_out (read_header_lines (tr_header_lines t) []) (\<lambda>header_data.
          if tr_ok t then received ph t header_data else Inr error_response))"

section \<open>The handlers\<close>

definition Proxy_handleRequest :: "boost_lib \<Rightarrow> curl \<Rightarrow> clock \<Rightarrow> proxy_handler \<Rightarrow> handler" where
  "Proxy_handleRequest B C clk ph r s =
     bind_out (parse_cache_hdrs B (req_headers r)) (\<lambda>hdrs.
       case cache_control clk hdrs (req_uri r) (map_at 0 hdrs ''no-cache'' \<noteq> 0)
              \<lparr>can_use = False, cache_only = False, should_cache = True\<rparr> s of
         (_, fl, s1) \<Rightarrow>
           if can_use fl then use_cache (req_uri r) s1
           else if cache_only fl then Inr (no_cache, s1)
           else bind_out (proxy_dest ph (req_uri r)) (\<lambda>dest.
             bind_out (proxy_fetch C ph dest) (\<lambda>res.
               case addRecord (req_uri r) ''ProxyHandler'' (res_code res) s1 of
                 (_, s2) \<Rightarrow>
                   Inr (res, if should_cache fl \<and> res_code res = sc_ok
                             then store_cache clk (req_uri r) res s2 else s2))))"

text \<open>\<open>CacheHandler\<close> forwards to a proxy handler whose two addresses are empty.\<close>

definition Cache_handleRequest :: "boost_lib \<Rightarrow> curl \<Rightarrow> clock \<Rightarrow> handler" where
  "Cache_handleRequest B C clk r s = Proxy_handleRequest B C clk \<lparr>serve_addr = [], proxy_addr = []\<rparr> r s"

section \<open>The interface of a request handler\<close>

lemma smap_wf_updates: "smap_wf m \<Longrightarrow> smap_wf (fold (\<lambda>(k, v) m. smap_update k v m) ps m)"
  by (induction ps arbitrary: m) (auto simp: smap_wf_update)

lemma received_wf: "received ph t hs = Inr res \<Longrightarrow> response_wf res"
  by (auto simp: received_def Let_def bind_out_Inr smap_wf_erase smap_wf_update smap_wf_updates)

lemma proxy_fetch_wf: "proxy_fetch C ph dest = Inr res \<Longrightarrow> response_wf res"
  by (auto simp: proxy_fetch_def Let_def bind_out_Inr error_response_def received_wf split: if_splits)

lemma cache_control_statics:
  assumes "cache_control clk hdrs uri mv fl s = (b, fl', s')"
  shows "s' = s \<or> s' = s\<lparr>st_cached_pages := smap_erase uri (st_cached_pages s)\<rparr>"
  using assms by (auto simp: cache_control_def Let_def split: option.splits prod.splits if_splits)

lemma statics_wf_erase: "statics_wf s \<Longrightarrow> statics_wf (s\<lparr>st_cached_pages := smap_erase uri (st_cached_pages s)\<rparr>)"
  by (auto simp: statics_wf_def smap_wf_erase) (auto simp: smap_erase_def)

lemma smap_lookup_set: "smap_lookup m k = Some v \<Longrightarrow> (k, v) \<in> set m"
  by (simp add: smap_lookup_def map_of_SomeD)

lemma smap_insert_set: "h \<in> set (smap_insert k v m) \<Longrightarrow> h = (k, v) \<or> h \<in> set m"
proof -
  have "h \<in> set (smap_update k v m) \<Longrightarrow> h = (k, v) \<or> h \<in> set m" by (induction m) (auto split: if_splits)
  then show "h \<in> set (smap_insert k v m) \<Longrightarrow> ?thesis" by (auto simp: smap_insert_def split: if_splits)
qed

lemma statics_wf_store:
  "statics_wf s \<Longrightarrow> response_wf res \<Longrightarrow> statics_wf (store_cache clk uri res s)"
  by (auto simp: statics_wf_def store_cache_def smap_wf_insert new_cached_page_def dest!: smap_insert_set)

lemma use_cache_result:
  "use_cache uri s = Inr (res, s') \<Longrightarrow>
   (\<exists>page. smap_lookup (st_cached_pages s) uri = Some page \<and> res = cp_response page) \<and>
   s' = s\<lparr>st_status := st_status s @ [record_text uri ''ProxyHandler'' sc_not_modified]\<rparr>"
  by (auto simp: use_cache_def addRecord_def Let_def get_cache_def split: option.splits)

lemma Proxy_cases:
  assumes "Proxy_handleRequest B C clk ph r s = Inr (res, s')"
  obtains hdrs b fl s1 where
    "parse_cache_hdrs B (req_headers r) = Inr hdrs"
    "cache_control clk hdrs (req_uri r) (map_at 0 hdrs ''no-cache'' \<noteq> 0)
       \<lparr>can_use = False, cache_only = False, should_cache = True\<rparr> s = (b, fl, s1)"
    "can_use fl \<Longrightarrow> use_cache (req_uri r) s1 = Inr (res, s')"
    "\<not> can_use fl \<Longrightarrow> cache_only fl \<Longrightarrow> res = no_cache \<and> s' = s1"
    "\<not> can_use fl \<Longrightarrow> \<not> cache_only fl \<Longrightarrow>
       response_wf res \<and>
       (let s2 = s1\<lparr>st_status := st_status s1 @ [record_text (req_uri r) ''ProxyHandler'' (res_code res)]\<rparr>
        in s' = (if should_cache fl \<and> res_code res = sc_ok then store_cache clk (req_uri r) res s2 else s2))"
proof -
  obtain hdrs where h: "parse_cache_hdrs B (req_headers r) = Inr hdrs"
    using assms by (auto simp: Proxy_handleRequest_def bind_out_Inr)
  obtain b fl s1 where cc: "cache_control clk hdrs (req_uri r) (map_at 0 hdrs ''no-cache'' \<noteq> 0)
      \<lparr>can_use = False, cache_only = False, should_cache = True\<rparr> s = (b, fl, s1)" by (metis prod_cases3)
  show ?thesis
    by (rule that [OF h cc])
      (use assms h cc in \<open>auto simp: Proxy_handleRequest_def bind_out_Inr addRecord_def Let_def proxy_fetch_wf
        split: if_splits\<close>)
qed

lemma no_cache_wf: "response_wf no_cache"
  by (simp add: no_cache_def smap_wf_update del: smap_update.simps)

lemma store_cache_status [simp]: "st_status (store_cache clk uri res s) = st_status s"
  by (simp add: store_cache_def)

lemma Proxy_wf:
  assumes "statics_wf s" "Proxy_handleRequest B C clk ph r s = Inr (res, s')"
  shows "statics_wf s' \<and> response_wf res"
  using assms(2)
proof (rule Proxy_cases)
  fix hdrs b fl s1
  assume cc: "cache_control clk hdrs (req_uri r) (map_at 0 hdrs ''no-cache'' \<noteq> 0)
      \<lparr>can_use = False, cache_only = False, should_cache = True\<rparr> s = (b, fl, s1)"
    and cases: "can_use fl \<Longrightarrow> use_cache (req_uri r) s1 = Inr (res, s')"
    "\<not> can_use fl \<Longrightarrow> cache_only fl \<Longrightarrow> res = no_cache \<and> s' = s1"
    "\<not> can_use fl \<Longrightarrow> \<not> cache_only fl \<Longrightarrow> response_wf res \<and>
       (let s2 = s1\<lparr>st_status := st_status s1 @ [record_text (req_uri r) ''ProxyHandler'' (res_code res)]\<rparr>
        in s' = (if should_cache fl \<and> res_code res = sc_ok then store_cache clk (req_uri r) res s2 else s2))"
  have s1: "statics_wf s1" using cache_control_statics [OF cc] assms(1) statics_wf_erase by auto
  show ?thesis
  proof (cases "can_use fl")
    case True
    from use_cache_result [OF cases(1) [OF True]] s1 show ?thesis
      by (auto simp: statics_wf_status dest!: smap_lookup_set) (auto simp: statics_wf_def)
  next
    case False
    then show ?thesis
      using cases(2,3) s1 by (cases "cache_only fl") (auto simp: no_cache_wf Let_def statics_wf_status statics_wf_store)
  qed
qed

lemma Proxy_log:
  assumes "Proxy_handleRequest B C clk ph r s = Inr (res, s')"
  shows "prefix (st_status s) (st_status s')"
  using assms
proof (rule Proxy_cases)
  fix hdrs b fl s1
  assume cc: "cache_control clk hdrs (req_uri r) (map_at 0 hdrs ''no-cache'' \<noteq> 0)
      \<lparr>can_use = False, cache_only = False, should_cache = True\<rparr> s = (b, fl, s1)"
    and cases: "can_use fl \<Longrightarrow> use_cache (req_uri r) s1 = Inr (res, s')"
    "\<not> can_use fl \<Longrightarrow> cache_only fl \<Longrightarrow> res = no_cache \<and> s' = s1"
    "\<not> can_use fl \<Longrightarrow> \<not> cache_only fl \<Longrightarrow> response_wf res \<and>
       (let s2 = s1\<lparr>st_status := st_status s1 @ [record_text (req_uri r) ''ProxyHandler'' (res_code res)]\<rparr>
        in s' = (if should_cache fl \<and> res_code res = sc_ok then store_cache clk (req_uri r) res s2 else s2))"
  have s1: "st_status s1 = st_status s" using cache_control_statics [OF cc] by auto
  show ?thesis
    using cases s1 use_cache_result [of "req_uri r" s1 res s']
    by (cases "can_use fl"; cases "cache_only fl") (auto simp: Let_def)
qed

interpretation proxy_h: request_handler "Proxy_handleRequest B C clk ph" for B C clk ph
  by unfold_locales (use Proxy_wf Proxy_log in blast)+

interpretation cache_h: request_handler "Cache_handleRequest B C clk" for B C clk
  by unfold_locales (use Proxy_wf Proxy_log in \<open>auto simp: Cache_handleRequest_def\<close>)


section \<open>The cache over several requests\<close>

lemma directives_single:
  assumes "boost B" "CHR '','' \<notin> set d" "trim_if isspace d = d"
  shows "directives B d m = bind_out (directive d) (\<lambda>(k, v). Inr (smap_update k v m))"
proof -
  have "str_find '','' d = -1" using assms(2) by (simp add: str_find_char_absent)
  then show ?thesis using assms(3) boost.trim_doc [OF assms(1)] by (subst directives.simps) simp
qed

text \<open>The directives of a request with one plain directive, one with a number, and none.\<close>

lemma parse_no_directive:
  assumes "boost B" "smap_lookup hdrs ''Cache-Control'' = None"
  shows "parse_cache_hdrs B hdrs = Inr [([], 1)]"
  using assms(2) directives_single [OF assms(1), of "[]" "[]"]
  by (simp add: parse_cache_hdrs_def map_at_def trim_if_def directive_def has_value_def)

lemma parse_no_store:
  assumes "boost B" "smap_lookup hdrs ''Cache-Control'' = Some ''no-store''"
  shows "parse_cache_hdrs B hdrs = Inr [(''no-store'', 1)]"
proof -
  have "trim_if isspace ''no-store'' = ''no-store''" "directive ''no-store'' = Inr (''no-store'', 1)" by code_simp+
  then show ?thesis using assms(2) directives_single [OF assms(1), of "''no-store''" "[]"]
    by (simp add: parse_cache_hdrs_def map_at_def)
qed

lemma isNum_snoc: "isNum (ds @ [c]) = isdigit c" "isNum [] = True"
  by (simp_all add: isNum_def)

lemma to_string_isNum: "isNum (to_string n)"
  using to_string_digits [of "last (to_string n)" n] isNum_snoc(1) [of "butlast (to_string n)" "last (to_string n)"]
  by simp

lemma digits_not_comma: "CHR '','' \<notin> set (to_string n)"
  using to_string_digits [of "CHR '',''" n] by (auto simp: isdigit_def)

lemma to_string_last_space: "\<not> isspace (last (to_string n))"
  using to_string_digits [of "last (to_string n)" n] by (auto simp: isdigit_def isspace_def)

lemma directive_max_age:
  assumes "n < 2 ^ 31"
  shows "directive (''max-age='' @ to_string n) = Inr (''max-age'', int n)"
proof -
  have "str_find ''max-age'' (''max-age='' @ to_string n) = 0"
    using str_find_self [of "''max-age''" "''='' @ to_string n"] by simp
  then have "has_value (''max-age='' @ to_string n)" by (simp add: has_value_def)
  moreover have "str_find ''='' (''max-age='' @ to_string n) = 7"
    using str_find_char_split [of "CHR ''=''" "''max-age''" "to_string n"] by simp
  ultimately show ?thesis
    using stoi_to_string [OF assms] to_string_isNum [of n]
    by (simp add: directive_def substr_def Let_def eval_nat_numeral)
qed

lemma parse_max_age:
  assumes "boost B" "n < 2 ^ 31" "smap_lookup hdrs ''Cache-Control'' = Some (''max-age='' @ to_string n)"
  shows "parse_cache_hdrs B hdrs = Inr [(''max-age'', int n)]"
proof -
  have "trim_if isspace (''max-age='' @ to_string n) = ''max-age='' @ to_string n"
    using to_string_last_space [of n]
    by (cases "to_string n" rule: rev_cases) (auto simp: trim_if_def isspace_def dropWhile_append)
  then show ?thesis
    using assms(3) directives_single [OF assms(1), of "''max-age='' @ to_string n" "[]"] digits_not_comma [of n]
      directive_max_age [OF assms(2)]
    by (simp add: parse_cache_hdrs_def map_at_def)
qed

lemma proxy_hit:
  assumes "boost B" "smap_lookup (req_headers r) ''Cache-Control'' = None"
    "smap_lookup (st_cached_pages s) (req_uri r) = Some page"
  shows "Proxy_handleRequest B C clk ph r s =
    Inr (cp_response page, s\<lparr>st_status := st_status s @ [record_text (req_uri r) ''ProxyHandler'' sc_not_modified]\<rparr>)"
  using assms(3) parse_no_directive [OF assms(1,2)]
  by (simp add: Proxy_handleRequest_def cache_control_def page_usable_def use_cache_def addRecord_def Let_def
      get_cache_def map_at_def smap_lookup_def)

text \<open>A page fetched with code 200 by a request without a directive is in the cache afterwards.\<close>

lemma proxy_page_stored:
  assumes "boost B" "smap_lookup (req_headers r) ''Cache-Control'' = None" "res_code res = sc_ok"
    "smap_lookup (st_cached_pages s) (req_uri r) = None"
    "Proxy_handleRequest B C clk ph r s = Inr (res, s')"
  shows "smap_lookup (st_cached_pages s') (req_uri r) = Some (new_cached_page res one_min (now_store clk))"
  using assms(5)
proof (rule Proxy_cases)
  fix hdrs b fl s1
  assume "parse_cache_hdrs B (req_headers r) = Inr hdrs"
    and cc: "cache_control clk hdrs (req_uri r) (map_at 0 hdrs ''no-cache'' \<noteq> 0)
      \<lparr>can_use = False, cache_only = False, should_cache = True\<rparr> s = (b, fl, s1)"
    and fetch: "\<not> can_use fl \<Longrightarrow> \<not> cache_only fl \<Longrightarrow> response_wf res \<and>
       (let s2 = s1\<lparr>st_status := st_status s1 @ [record_text (req_uri r) ''ProxyHandler'' (res_code res)]\<rparr>
        in s' = (if should_cache fl \<and> res_code res = sc_ok then store_cache clk (req_uri r) res s2 else s2))"
  then have "hdrs = [([], 1)]" using parse_no_directive [OF assms(1,2)] by simp
  with cc assms(4) have "s1 = s" "\<not> can_use fl" "\<not> cache_only fl" "should_cache fl"
    by (auto simp: cache_control_def map_at_def smap_lookup_def)
  with fetch assms(3,4) show ?thesis by (auto simp: Let_def store_cache_def smap_lookup_insert)
qed

text \<open>
  A request with \<^verbatim>\<open>no-store\<close> is not cached when there is no page for it yet. When there is one,
  the page is dropped, and the response to the \<^verbatim>\<open>no-store\<close> request is stored in its place.
\<close>

theorem proxy_no_store:
  assumes "boost B" "smap_lookup (req_headers r) ''Cache-Control'' = Some ''no-store''"
    "res_code res = sc_ok" "Proxy_handleRequest B C clk ph r s = Inr (res, s')"
  shows "smap_lookup (st_cached_pages s') (req_uri r) =
    (if smap_lookup (st_cached_pages s) (req_uri r) = None then None
     else Some (new_cached_page res one_min (now_store clk)))"
  using assms(4)
proof (rule Proxy_cases)
  fix hdrs b fl s1
  assume "parse_cache_hdrs B (req_headers r) = Inr hdrs"
    and cc: "cache_control clk hdrs (req_uri r) (map_at 0 hdrs ''no-cache'' \<noteq> 0)
      \<lparr>can_use = False, cache_only = False, should_cache = True\<rparr> s = (b, fl, s1)"
    and fetch: "\<not> can_use fl \<Longrightarrow> \<not> cache_only fl \<Longrightarrow> response_wf res \<and>
       (let s2 = s1\<lparr>st_status := st_status s1 @ [record_text (req_uri r) ''ProxyHandler'' (res_code res)]\<rparr>
        in s' = (if should_cache fl \<and> res_code res = sc_ok then store_cache clk (req_uri r) res s2 else s2))"
  then have hdrs: "hdrs = [(''no-store'', 1)]" using parse_no_store [OF assms(1,2)] by simp
  show ?thesis
  proof (cases "smap_lookup (st_cached_pages s) (req_uri r)")
    case None
    with cc hdrs have "s1 = s" "\<not> can_use fl" "\<not> cache_only fl" "\<not> should_cache fl"
      by (auto simp: cache_control_def map_at_def smap_lookup_def)
    with fetch None show ?thesis by (simp add: Let_def)
  next
    case (Some page)
    with cc hdrs have "s1 = s\<lparr>st_cached_pages := smap_erase (req_uri r) (st_cached_pages s)\<rparr>"
        "\<not> can_use fl" "\<not> cache_only fl" "should_cache fl"
      by (auto simp: cache_control_def map_at_def smap_lookup_def split: prod.splits)
    with fetch assms(3) Some show ?thesis
      by (simp add: Let_def store_cache_def smap_lookup_insert smap_lookup_erase)
  qed
qed

lemma store_cache_present: "smap_lookup (st_cached_pages s) uri = Some page \<Longrightarrow> store_cache clk uri res s = s"
  by (simp add: store_cache_def smap_insert_def)

text \<open>
  A request with \<^verbatim>\<open>max-age=n\<close> for a page in the cache gets the cached response, recorded as not
  modified, iff the page is at most \<open>n\<close> seconds old. For an older page the target is fetched again, a
  failure of the transfer included, and the old page stays in the cache: the new response is not stored.
\<close>

theorem proxy_max_age:
  assumes "boost B" "0 < n" "n < 2 ^ 31"
    "smap_lookup (req_headers r) ''Cache-Control'' = Some (''max-age='' @ to_string n)"
    "smap_lookup (st_cached_pages s) (req_uri r) = Some page"
  shows "Proxy_handleRequest B C clk ph r s =
    (if now_expired clk \<le> cp_time_start page + int n
     then Inr (cp_response page, s\<lparr>st_status := st_status s @ [record_text (req_uri r) ''ProxyHandler'' sc_not_modified]\<rparr>)
     else bind_out (proxy_dest ph (req_uri r)) (\<lambda>dest. bind_out (proxy_fetch C ph dest) (\<lambda>res.
       Inr (res, s\<lparr>st_status := st_status s @ [record_text (req_uri r) ''ProxyHandler'' (res_code res)]\<rparr>))))"
proof -
  have hdrs: "parse_cache_hdrs B (req_headers r) = Inr [(''max-age'', int n)]"
    using assms(1,3,4) by (rule parse_max_age)
  have cc: "cache_control clk [(''max-age'', int n)] (req_uri r) False
      \<lparr>can_use = False, cache_only = False, should_cache = True\<rparr> s =
    (let u = (now_expired clk \<le> cp_time_start page + int n) in
     (u, \<lparr>can_use = u, cache_only = False, should_cache = True\<rparr>, s))"
    using assms(2,5) by (auto simp: cache_control_def page_usable_def map_at_def smap_lookup_def Let_def isExpired_def)
  have kept: "(if b then store_cache clk (req_uri r) res (s\<lparr>st_status := log\<rparr>) else s\<lparr>st_status := log\<rparr>) = s\<lparr>st_status := log\<rparr>" for b res log
    using assms(5) store_cache_present [of "s\<lparr>st_status := log\<rparr>" "req_uri r"] by simp
  show ?thesis
    using assms(5)
    by (simp add: Proxy_handleRequest_def hdrs map_at_def smap_lookup_def [of "[(''max-age'', int n)]"] cc Let_def
        use_cache_def addRecord_def get_cache_def kept)
qed

section \<open>Examples of the cache\<close>

definition one_reply :: "string list \<Rightarrow> string \<Rightarrow> curl" where
  "one_reply ls msg =
     \<lparr>curl_init = True, curl_setopt_ok = \<lambda>_ _. True,
      curl_perform = \<lambda>_. \<lparr>tr_ok = True, tr_code = 200, tr_header_lines = ls, tr_chunks = [msg]\<rparr>\<rparr>"

definition all_at :: "int \<Rightarrow> clock" where
  "all_at t = \<lparr>now_stale = t, now_expired = t, now_fresh = t, now_store = t\<rparr>"

definition ask :: "string smap \<Rightarrow> string \<Rightarrow> request" where
  "ask hdrs uri = \<lparr>req_method = GET, req_uri = uri, req_headers = hdrs, req_body = [], req_version = ''HTTP/1.1''\<rparr>"

definition with_page :: "string \<Rightarrow> response \<Rightarrow> int \<Rightarrow> statics" where
  "with_page uri res t = \<lparr>st_status = [], st_cached_pages = [(uri, new_cached_page res one_min t)], st_locationToRoot = []\<rparr>"

definition text_page :: "string \<Rightarrow> response" where
  "text_page msg = \<lparr>res_code = sc_ok,
     res_headers = [(''Connection'', ''close''), (''Content-Length'', to_string (length msg))],
     res_body = msg, res_src_type = 0\<rparr>"

definition ucla :: proxy_handler where
  "ucla = \<lparr>serve_addr = ''/u'', proxy_addr = ''u.edu''\<rparr>"

theorem proxy_no_store_witness:
  "smap_lookup (st_cached_pages (snd (projr (Proxy_handleRequest boost_ref (one_reply [] ''new'') (all_at 200) ucla
      (ask [(''Cache-Control'', ''no-store'')] ''/u/a'') (with_page ''/u/a'' (text_page ''old'') 100))))) ''/u/a'' =
   Some (new_cached_page (text_page ''new'') one_min 200)"
proof -
  let ?P = "Proxy_handleRequest boost_ref (one_reply [] ''new'') (all_at 200) ucla
      (ask [(''Cache-Control'', ''no-store'')] ''/u/a'') (with_page ''/u/a'' (text_page ''old'') 100)"
  have "fst (projr ?P) = text_page ''new''" "isl ?P = False" by code_simp+
  then have P: "?P = Inr (text_page ''new'', snd (projr ?P))" by (cases ?P) auto
  have "smap_lookup (st_cached_pages (with_page ''/u/a'' (text_page ''old'') 100)) ''/u/a'' \<noteq> None" by code_simp
  with proxy_no_store [OF boost_ref_documented _ _ P] show ?thesis
    by (simp add: ask_def text_page_def smap_lookup_def all_at_def)
qed

theorem proxy_max_age_witness:
  "Proxy_handleRequest boost_ref (one_reply [] ''new'') (all_at 130) ucla
      (ask [(''Cache-Control'', ''max-age='' @ to_string 60)] ''/u/a'') (with_page ''/u/a'' (text_page ''old'') 100) =
        Inr (text_page ''old'', (with_page ''/u/a'' (text_page ''old'') 100)\<lparr>st_status := [record_text ''/u/a'' ''ProxyHandler'' sc_not_modified]\<rparr>)"
proof -
  have "smap_lookup (st_cached_pages (with_page ''/u/a'' (text_page ''old'') 100)) ''/u/a'' =
      Some (new_cached_page (text_page ''old'') one_min 100)" by code_simp
  with proxy_max_age [OF boost_ref_documented, of 60 "ask [(''Cache-Control'', ''max-age='' @ to_string 60)] ''/u/a''"
      "with_page ''/u/a'' (text_page ''old'') 100" "new_cached_page (text_page ''old'') one_min 100"
      "one_reply [] ''new''" "all_at 130" ucla]
  show ?thesis by (simp add: ask_def smap_lookup_def all_at_def new_cached_page_def with_page_def)
qed

section \<open>Rewriting a page\<close>

text \<open>
  \<^bold>\<open>C27.\<close> Rewriting an HTML page puts the server's own prefix, without a final slash, after every quotation
  mark that is followed by a slash, and changes nothing else: on pages without two quotation marks in
  a row it is the replacement of every \<^verbatim>\<open>"/\<close> by \<^verbatim>\<open>"prefix/\<close>.
\<close>

theorem parse_html_body_replaces:
  assumes "serve_addr ph \<noteq> []" "\<not> sublist [QUOTE, QUOTE] msg"
  shows "parse_html_body ph msg = Inr (replace_each [QUOTE, CHR ''/'']
    (QUOTE # (if last (serve_addr ph) = CHR ''/'' then butlast (serve_addr ph) else serve_addr ph) @ ''/'') msg)"
proof -
  have eq: "html_loop t [] m = replace_each [QUOTE, CHR ''/''] (QUOTE # t @ ''/'') m" if "\<not> sublist [QUOTE, QUOTE] m" for t m
    using that
  proof (induction m rule: length_induct)
    case (1 m)
    show ?case
    proof (cases m)
      case (Cons c cs)
      show ?thesis
      proof (cases "c = QUOTE")
        case False
        then show ?thesis using 1 Cons by (auto simp: sublist_Cons_right)
      next
        case True
        show ?thesis
        proof (cases cs)
          case (Cons d ds)
          have "d \<noteq> QUOTE" "\<not> sublist [QUOTE, QUOTE] ds" "\<not> sublist [QUOTE, QUOTE] cs"
            using "1.prems" \<open>m = c # cs\<close> True Cons by (auto simp: sublist_Cons_right)
          with 1 \<open>m = c # cs\<close> True Cons show ?thesis by auto
        qed (use True \<open>m = c # cs\<close> in simp)
      qed
    qed simp
  qed
  have last_cut: "nat (int (length (serve_addr ph)) - 1) = length (serve_addr ph) - Suc 0" by simp
  have "target_addr ph = Inr (if last (serve_addr ph) = CHR ''/'' then butlast (serve_addr ph) else serve_addr ph)"
    using assms(1) last_cut by (simp add: target_addr_def char_at_last substr_def butlast_conv_take)
  with eq [OF assms(2)] show ?thesis by (simp add: parse_html_body_def)
qed

theorem parse_html_body_replaces_witness:
  "parse_html_body \<lparr>serve_addr = ''/u/'', proxy_addr = []\<rparr> (''src='' @ [QUOTE] @ ''/a'' @ [QUOTE]) =
     Inr (replace_each [QUOTE, CHR ''/'']
       (QUOTE # (if last ''/u/'' = CHR ''/'' then butlast ''/u/'' else ''/u/'') @ ''/'') (''src='' @ [QUOTE] @ ''/a'' @ [QUOTE]))"
  using parse_html_body_replaces [of "\<lparr>serve_addr = ''/u/'', proxy_addr = []\<rparr>" "''src='' @ [QUOTE] @ ''/a'' @ [QUOTE]"]
  by (simp add: sublist_code)

section \<open>Replies the handlers do not survive\<close>

text \<open>
  \<^bold>\<open>C39.\<close> The cache handler has no defined behaviour on an HTML page: whenever a transfer succeeds, with
  whatever status, body and header lines, and the \<^verbatim>\<open>Content-Type\<close> header read from these contains
  \<^verbatim>\<open>text/html\<close>, the page is rewritten with the prefix of the handler, which is empty, and its last character
  is read. The request is one for an absolute address that is not in the cache, without a directive.
\<close>

theorem cache_handler_html:
  assumes "boost B" "smap_lookup (req_headers r) ''Cache-Control'' = None" "starts_with ''http'' (req_uri r)"
    "smap_lookup (st_cached_pages s) (req_uri r) = None"
    "curl_init C" "\<forall>opt. curl_setopt_ok C opt (req_uri r)" "curl_perform C (req_uri r) = t" "tr_ok t"
    "read_header_lines (tr_header_lines t) [] = Inr hs" "smap_lookup hs ''Content-Type'' = Some ty" "sublist ''text/html'' ty"
  shows "Cache_handleRequest B C clk r s = Inl Undefined_Behaviour"
proof -
  have "str_find ''text/html'' ty \<noteq> -1" using assms(11) by (simp add: str_find_absent)
  moreover have "parse_html_body \<lparr>serve_addr = [], proxy_addr = []\<rparr> m = Inl Undefined_Behaviour" for m
    using char_at_last [of "[]"] by (simp add: parse_html_body_def target_addr_def)
  ultimately have "proxy_fetch C \<lparr>serve_addr = [], proxy_addr = []\<rparr> (req_uri r) = Inl Undefined_Behaviour"
    using assms(5-10) by (simp add: proxy_fetch_def received_def Let_def)
  moreover have "proxy_dest \<lparr>serve_addr = [], proxy_addr = []\<rparr> (req_uri r) = Inr (req_uri r)"
    using assms(3) by (simp add: proxy_dest_def)
  ultimately show ?thesis
    using parse_no_directive [OF assms(1,2)] assms(4)
    by (simp add: Cache_handleRequest_def Proxy_handleRequest_def cache_control_def map_at_def smap_lookup_def)
qed

text \<open>The lines libcurl passes on: the status line, the headers, and the empty line.\<close>

theorem cache_handler_html_witness:
  "Cache_handleRequest boost_ref (one_reply [''HTTP/1.1 200 OK'' @ crlf, ''Date: Tue, 15 Nov 1994 08:12:31 GMT'' @ crlf,
       ''Content-Type: text/html; charset=UTF-8'' @ crlf, crlf] ''<p>'')
     (all_at 0) (ask [] ''http://a.b/'') initial_statics = Inl Undefined_Behaviour"
proof -
  let ?C = "one_reply [''HTTP/1.1 200 OK'' @ crlf, ''Date: Tue, 15 Nov 1994 08:12:31 GMT'' @ crlf,
       ''Content-Type: text/html; charset=UTF-8'' @ crlf, crlf] ''<p>''" and ?r = "ask [] ''http://a.b/''"
  let ?H = "read_header_lines (tr_header_lines (curl_perform ?C (req_uri ?r))) []"
  have "isl ?H = False" "smap_lookup (projr ?H) ''Content-Type'' = Some ''text/html; charset=UTF-8''" by code_simp+
  then have H: "?H = Inr (projr ?H)" "smap_lookup (projr ?H) ''Content-Type'' = Some ''text/html; charset=UTF-8''"
    by (cases ?H, simp_all)
  have "starts_with ''http'' (req_uri ?r)" "sublist ''text/html'' ''text/html; charset=UTF-8''" "tr_ok (curl_perform ?C (req_uri ?r))"
    by code_simp+
  with cache_handler_html [OF boost_ref_documented _ _ _ _ _ refl _ H] show ?thesis
    by (simp add: ask_def initial_statics_def one_reply_def smap_lookup_def)
qed

text \<open>
  A header line is stored under its name with the text after the colon and one more character.
  A header without a value (\<^verbatim>\<open>X:\<close> and the line break) makes \<^verbatim>\<open>substr\<close> throw out of the callback.
\<close>

theorem header_callback_spec:
  assumes "CHR '':'' \<notin> set name" "CR \<notin> set name" "LF \<notin> set name" "CR \<notin> set val" "LF \<notin> set val"
  shows "header_callback (name @ '':'' @ val @ crlf) m =
    (if val = [] then Inl Out_Of_Range else Inr (smap_insert name (tl val) m))"
proof -
  have "takeWhile (\<lambda>c. c \<noteq> CR \<and> c \<noteq> LF) (name @ '':'' @ val @ crlf) = name @ CHR '':'' # val"
    using assms by (auto simp: takeWhile_append)
  moreover have "str_find '':'' (name @ CHR '':'' # val) = int (length name)"
    using assms(1) by (rule str_find_char_split)
  moreover have "substr_from (name @ CHR '':'' # val) (int (length name) + 2) =
      (if val = [] then Inl Out_Of_Range else Inr (tl val))"
    by (cases val) (simp_all add: substr_def nat_add_distrib)
  ultimately show ?thesis by (simp add: header_callback_def Let_def)
qed

theorem header_callback_spec_witness:
  "header_callback (''X-Empty'' @ '':'' @ [] @ crlf) [] = Inl Out_Of_Range"
  using header_callback_spec [of "''X-Empty''" "[]" "[]"] by simp

text \<open>
  Of several header lines with one name the first is kept, also when they belong to different
  responses: following a redirection, libcurl passes on the headers of every response on the way.
\<close>

theorem read_header_lines_first:
  assumes "read_header_lines ls m = Inr m'"
  shows "smap_lookup m k = Some v \<Longrightarrow> smap_lookup m' k = Some v"
  using assms
proof (induction ls arbitrary: m)
  case (Cons l ls)
  then obtain m1 where m1: "header_callback l m = Inr m1" "read_header_lines ls m1 = Inr m'"
    by (auto simp: bind_out_Inr)
  then have "smap_lookup m1 k = Some v"
    using Cons.prems(1) by (auto simp: header_callback_def Let_def bind_out_Inr smap_lookup_insert split: if_splits)
  with Cons.IH m1(2) show ?case by blast
qed simp

theorem read_header_lines_first_witness:
  "smap_lookup (projr (read_header_lines [''Content-Type: text/html'' @ crlf] [(''Content-Type'', ''text/plain'')]))
     ''Content-Type'' = Some ''text/plain''"
proof -
  let ?ls = "[''Content-Type: text/html'' @ crlf]" and ?m = "[(''Content-Type'', ''text/plain'')]"
  have "isl (read_header_lines ?ls ?m) = False" by code_simp
  then have "read_header_lines ?ls ?m = Inr (projr (read_header_lines ?ls ?m))"
    by (cases "read_header_lines ?ls ?m") auto
  then show ?thesis by (rule read_header_lines_first) (simp add: smap_lookup_def)
qed

end
