(* ===== verification/Static_File_Handler.thy ===== *)
theory Static_File_Handler
  imports Simple_Handlers
begin

text \<open>
  The handler for files, \<^verbatim>\<open>src/static_file_handler.cc\<close>. The file system is the parameter \<open>D\<close>: the
  working directory, and for a path whether something exists there and what reading it yields. The
  patterns are those of \<^verbatim>\<open>std::regex\<close>, decided by the derivative matcher; there a dot matches
  anything but a line break.
\<close>

section \<open>The file system\<close>

text \<open>\<open>Unreadable\<close>: the path exists but cannot be opened for reading.\<close>

datatype fs_entry = Absent | Unreadable | Content string

record filesystem =
  current_path :: string
  file_at :: "string \<Rightarrow> fs_entry"

section \<open>Registering a location\<close>

definition Static_Init :: "string \<Rightarrow> NginxConfig \<Rightarrow> statics \<Rightarrow> statics outcome" where
  "Static_Init location_path config s =
     (let path = config_ToString 0 config; pos = str_find ''/'' path in
      bind_out (substr path pos (int (length path) - pos - 3)) (\<lambda>root.
        bind_out (substr location_path 1 (int (length location_path) - 2)) (\<lambda>temp.
          Inr (s\<lparr>st_locationToRoot := smap_update temp root (st_locationToRoot s)\<rparr>))))"

section \<open>The kind of a target\<close>

definition dot :: rexp where
  "dot = Cls (\<lambda>c. c \<noteq> LF \<and> c \<noteq> CR)"

definition named :: "string \<Rightarrow> rexp" where
  "named ext = Seq (lit ''/'') (Seq (plus (Cls alpha)) (lit ext))"

definition configParser :: "string \<Rightarrow> int" where
  "configParser http_body =
     (if rx_match (Seq (Star dot) (lit ''/'')) http_body then -1
      else if rx_search (named ''.ico'') http_body then 0
      else if rx_search (Seq (lit ''/'') (Seq (plus (Cls alpha)) (Seq (lit ''.'') (Alt (lit ''txt'') (lit ''html''))))) http_body then 1
      else if rx_search (named ''.png'') http_body then 2
      else if rx_search (named ''.jpg'') http_body then 3
      else if rx_search (Seq (lit ''/'') (plus (Cls alpha))) http_body then 4
      else 0)"

section \<open>The path of a file\<close>

text \<open>\<^verbatim>\<open>locationToRoot[prefix]\<close>: reading an absent key stores an empty root under it.\<close>

definition root_at :: "string \<Rightarrow> string smap \<Rightarrow> string \<times> string smap" where
  "root_at k m = (map_at [] m k, smap_insert k [] m)"

function find_root :: "string \<Rightarrow> string \<Rightarrow> string smap \<Rightarrow> (string \<times> string) option \<times> string smap" where
  "find_root pre subpath m =
     (case root_at pre m of (root, m') \<Rightarrow>
        if root \<noteq> [] then (Some (root, subpath), m')
        else let pos = find_last_of (CHR ''/'') pre in
          if pos = -1 then (None, m')
          else find_root (take (nat pos) pre) (drop (nat pos) pre @ subpath) m')"
  by pat_completeness auto
termination
proof (relation "measure (\<lambda>(p, s, m). length p)")
  fix pre subpath :: string and m x root m' pos
  assume "pos = find_last_of (CHR ''/'') pre" "pos \<noteq> -1"
  then show "((take (nat pos) pre, drop (nat pos) pre @ subpath, m'), pre, subpath, m) \<in> measure (\<lambda>(p, s, m). length p)"
    using find_last_of_less [of "CHR ''/''" pre] find_last_of_ge [of "CHR ''/''" pre] by auto
qed simp

declare find_root.simps [simp del]

text \<open>\<open>[]\<close> when no location fits.\<close>

definition replace_path :: "string \<Rightarrow> statics \<Rightarrow> (string \<times> statics) outcome" where
  "replace_path location_prefix s =
     (let pos = find_last_of (CHR ''/'') location_prefix + 1 in
      bind_out (substr_from location_prefix pos) (\<lambda>file.
        bind_out (substr location_prefix 0 (pos - 1)) (\<lambda>pre.
          case find_root pre [] (st_locationToRoot s) of
            (None, m) \<Rightarrow> Inr ([], s\<lparr>st_locationToRoot := m\<rparr>)
          | (Some (root, subpath), m) \<Rightarrow>
              Inr (root @ subpath @ ''/'' @ file, s\<lparr>st_locationToRoot := m\<rparr>))))"

section \<open>Responses\<close>

definition file_not_found :: response where
  "file_not_found =
     (let msg = ''Error: File Not Found'' in
      \<lparr>res_code = sc_not_found,
       res_headers = smap_update ''Connection'' ''close'' (smap_update ''Content-length'' (to_string (length msg))
         (smap_update ''Content-type'' ''text/plain'' [])),
       res_body = msg, res_src_type = 0\<rparr>)"

fun strip_slashes :: "string \<Rightarrow> string" where
  "strip_slashes (c # d # cs) = (if c = CHR ''/'' \<and> d = CHR ''/'' then strip_slashes (d # cs) else c # d # cs)"
| "strip_slashes s = s"

definition log_static :: "string \<Rightarrow> response \<Rightarrow> statics \<Rightarrow> response \<times> statics" where
  "log_static file res s = (res, snd (addRecord file ''StaticHandler'' (res_code res) s))"

text \<open>
  The size of a file that cannot be opened is \<^verbatim>\<open>-1\<close> as a \<^verbatim>\<open>size_t\<close>, and no vector has that size.
\<close>

definition getBinaryContent :: "filesystem \<Rightarrow> string \<Rightarrow> int \<Rightarrow> statics \<Rightarrow> (response \<times> statics) outcome" where
  "getBinaryContent D filename src_type s =
     (case file_at D (strip_slashes (current_path D @ filename)) of
        Absent \<Rightarrow> Inr (log_static filename file_not_found s)
      | Unreadable \<Rightarrow> Inl Length_Error
      | Content img \<Rightarrow>
          let (ty, media) =
            (if src_type = 2 then (2, ''image/png'') else if src_type = 3 then (3, ''image/jpeg'')
             else (4, ''application/octet-stream''))
          in Inr (log_static filename
               \<lparr>res_code = sc_ok,
                res_headers = smap_update ''Connection'' ''close'' (smap_update ''Content-Length'' (to_string (length img))
                  (smap_update ''Content-type'' media [])),
                res_body = img, res_src_type = ty\<rparr> s))"

text \<open>\<^verbatim>\<open>while (std::getline(fin, line)) body += line;\<close>\<close>

function getline_loop :: "string \<Rightarrow> string \<Rightarrow> string" where
  "getline_loop body fin =
     (if fin = [] then body
      else let line = takeWhile (\<lambda>c. c \<noteq> LF) fin in getline_loop (body @ line) (drop (length line + 1) fin))"
  by pat_completeness auto
termination
  by (relation "measure (\<lambda>(b, f). length f)") auto

declare getline_loop.simps [simp del]

definition index_page :: response where
  "index_page =
     \<lparr>res_code = sc_ok,
      res_headers = smap_update ''Connection'' ''close'' (smap_update ''Content-Length'' ''37''
        (smap_update ''Content-Type'' ''text/html; charset=UTF-8'' [])),
      res_body = ''Hello World! This is the index page.'', res_src_type = 0\<rparr>"

definition formResponse :: "filesystem \<Rightarrow> int \<Rightarrow> string \<Rightarrow> statics \<Rightarrow> (response \<times> statics) outcome" where
  "formResponse D src_type file_path s =
     (if src_type = 0 then Inr (log_static file_path index_page s)
      else if src_type = 1 then
        (case file_at D (strip_slashes (current_path D @ file_path)) of
           Absent \<Rightarrow> Inr (log_static file_path file_not_found s)
         | f \<Rightarrow>
             let body = getline_loop [] (case f of Content t \<Rightarrow> t | _ \<Rightarrow> []) in
             Inr (log_static file_path
               \<lparr>res_code = sc_ok,
                res_headers = smap_update ''Content-Length'' (to_string (length body))
                  (smap_update ''Content-Type'' ''text/html; charset=UTF-8'' []),
                res_body = body, res_src_type = 1\<rparr> s))
      else Inl Undefined_Behaviour)"

text \<open>
  \<^verbatim>\<open>request.method_ + " "\<close> adds the number of the method to a pointer to two characters, the blank and
  the null: 0 is the blank, 1 the empty string, more is past the end.
\<close>

definition getRequestLine :: "request \<Rightarrow> string outcome" where
  "getRequestLine r =
     bind_out (substr_from (req_uri r) (str_find ''/'' (req_uri r) + 1)) (\<lambda>uri.
       if method_index (req_method r) = 0 then Inr ('' '' @ uri @ '' '' @ req_version r @ crlf)
       else if method_index (req_method r) = 1 then Inr (uri @ '' '' @ req_version r @ crlf)
       else Inl Undefined_Behaviour)"

section \<open>The handler\<close>

definition Static_handleRequest :: "filesystem \<Rightarrow> handler" where
  "Static_handleRequest D r s =
     bind_out (getRequestLine r) (\<lambda>_.
       let src_type = configParser (req_uri r) in
       if src_type = 2 \<or> src_type = 3 \<or> src_type = 4 then
         bind_out (replace_path (req_uri r) s) (\<lambda>(file_path, s'). getBinaryContent D file_path src_type s')
       else if src_type = -1 then
         Inr (file_not_found, snd (addRecord (req_uri r) ''StaticHandler'' sc_not_found s))
       else
         bind_out (replace_path (req_uri r) s) (\<lambda>(file_path, s').
           if file_path = [] then
             Inr (file_not_found, snd (addRecord (req_uri r) ''StaticHandler'' sc_not_found s'))
           else formResponse D src_type file_path s'))"

section \<open>The interface of a request handler\<close>

lemma map_at_root: "map_at [] (smap_insert k [] m) = map_at [] m"
  by (auto simp: map_at_def smap_lookup_insert fun_eq_iff split: option.splits)

lemma find_root_wf: "smap_wf m \<Longrightarrow> smap_wf (snd (find_root pre sub m))"
proof (induction pre sub m rule: find_root.induct)
  case (1 pre sub m)
  show ?case
  proof (cases "map_at [] m pre = [] \<and> find_last_of (CHR ''/'') pre \<noteq> -1")
    case True
    with 1 show ?thesis by (subst find_root.simps) (simp add: root_at_def Let_def smap_wf_insert)
  next
    case False
    with "1.prems" show ?thesis by (subst find_root.simps) (auto simp: root_at_def Let_def smap_wf_insert)
  qed
qed

lemma find_root_map_at: "map_at [] (snd (find_root pre sub m)) = map_at [] m"
proof (induction pre sub m rule: find_root.induct)
  case (1 pre sub m)
  show ?case
  proof (cases "map_at [] m pre = [] \<and> find_last_of (CHR ''/'') pre \<noteq> -1")
    case True
    with 1 show ?thesis by (subst find_root.simps) (simp add: root_at_def Let_def map_at_root)
  next
    case False
    then show ?thesis by (subst find_root.simps) (auto simp: root_at_def Let_def map_at_root)
  qed
qed

lemma replace_path_eq:
  "\<exists>f p. replace_path uri s =
     Inr (case fst (find_root p [] (st_locationToRoot s)) of None \<Rightarrow> [] | Some (root, sub) \<Rightarrow> root @ sub @ ''/'' @ f,
          s\<lparr>st_locationToRoot := snd (find_root p [] (st_locationToRoot s))\<rparr>)"
proof -
  have "completes (substr_from uri (find_last_of (CHR ''/'') uri + 1))" "completes (substr uri 0 n)" for n
    using find_last_of_less [of "CHR ''/''" uri] find_last_of_ge [of "CHR ''/''" uri] by (simp_all add: substr_in_range)
  then obtain f p where fp: "substr_from uri (find_last_of (CHR ''/'') uri + 1) = Inr f"
      "substr uri 0 (find_last_of (CHR ''/'') uri) = Inr p"
    by (metis completes_iff)
  have "replace_path uri s =
     Inr (case fst (find_root p [] (st_locationToRoot s)) of None \<Rightarrow> [] | Some (root, sub) \<Rightarrow> root @ sub @ ''/'' @ f,
          s\<lparr>st_locationToRoot := snd (find_root p [] (st_locationToRoot s))\<rparr>)"
    using fp by (simp add: replace_path_def Let_def split: prod.split option.split)
  then show ?thesis by blast
qed

lemma replace_path_statics:
  assumes "replace_path uri s = Inr (path, s')"
  shows "st_status s' = st_status s" "statics_wf s \<Longrightarrow> statics_wf s'"
  using assms replace_path_eq [of uri s] by (auto simp: statics_wf_def find_root_wf)

lemma replace_path_total: "completes (replace_path uri s)"
  using replace_path_eq [of uri s] by (auto simp: completes_iff)

lemma smap3_wf: "smap_wf (smap_update a x (smap_update b y (smap_update c z [])))"
  "smap_wf (smap_update b y (smap_update c z []))"
  by (simp_all add: smap_wf_update del: smap_update.simps)

lemma log_static_statics: "log_static f res s = (res', s') \<Longrightarrow>
   res' = res \<and> s' = s\<lparr>st_status := st_status s @ [record_text f ''StaticHandler'' (res_code res)]\<rparr>"
  by (auto simp: log_static_def addRecord_def Let_def)

text \<open>Each way to form a response adds one record and yields a response of the type.\<close>

definition logged :: "statics \<Rightarrow> response \<times> statics \<Rightarrow> bool" where
  "logged s p = (response_wf (fst p) \<and> (\<exists>e. snd p = s\<lparr>st_status := st_status s @ [e]\<rparr>))"

lemma logged_log_static: "response_wf res \<Longrightarrow> logged s (log_static f res s)"
  by (auto simp: logged_def log_static_def addRecord_def Let_def)

lemma file_not_found_wf: "response_wf file_not_found"
  by (simp add: file_not_found_def Let_def smap3_wf del: smap_update.simps)

lemma getBinaryContent_logged: "getBinaryContent D f ty s = Inr p \<Longrightarrow> logged s p"
  by (auto simp: getBinaryContent_def Let_def smap3_wf file_not_found_wf simp del: smap_update.simps
      intro!: logged_log_static split: fs_entry.splits prod.splits if_splits)

lemma formResponse_logged: "formResponse D ty f s = Inr p \<Longrightarrow> logged s p"
  by (auto simp: formResponse_def Let_def smap3_wf file_not_found_wf index_page_def simp del: smap_update.simps
      intro!: logged_log_static split: fs_entry.splits if_splits)

lemma Static_cases:
  assumes "Static_handleRequest D r s = Inr (res, s')"
  obtains s1 where "s1 = s \<or> (\<exists>path. replace_path (req_uri r) s = Inr (path, s1))" "logged s1 (res, s')"
proof -
  have nf: "logged s1 (file_not_found, snd (addRecord u ''StaticHandler'' c s1))" for u c s1
    by (auto simp: logged_def file_not_found_wf addRecord_def Let_def)
  show ?thesis
    using assms nf by (auto simp: Static_handleRequest_def Let_def bind_out_Inr split: if_splits
        dest!: getBinaryContent_logged formResponse_logged intro: that)
qed

interpretation static_h: request_handler "Static_handleRequest D" for D
proof
  fix s r res s'
  assume "Static_handleRequest D r s = Inr (res, s')"
  then obtain s1 where s1: "s1 = s \<or> (\<exists>path. replace_path (req_uri r) s = Inr (path, s1))" "logged s1 (res, s')"
    by (rule Static_cases)
  then show "prefix (st_status s) (st_status s')" by (auto simp: logged_def replace_path_statics)
  assume "statics_wf s"
  with s1 show "statics_wf s' \<and> response_wf res"
    by (auto simp: logged_def statics_wf_status dest: replace_path_statics(2))
qed


section \<open>Longest prefix matching\<close>

text \<open>A path as the list of its segments, none of which contains a slash.\<close>

definition path_text :: "string list \<Rightarrow> string" where
  "path_text segs = concat (map (\<lambda>s. CHR ''/'' # s) segs)"

definition segments_ok :: "string list \<Rightarrow> bool" where
  "segments_ok segs = (\<forall>x \<in> set segs. CHR ''/'' \<notin> set x)"

lemma path_text_simps [simp]:
  "path_text [] = []" "path_text (xs @ ys) = path_text xs @ path_text ys" "path_text [x] = CHR ''/'' # x"
  by (simp_all add: path_text_def)

lemma find_root_up:
  assumes "map_at [] m (path_text segs @ CHR ''/'' # x) = []" "CHR ''/'' \<notin> set x"
  shows "find_root (path_text segs @ CHR ''/'' # x) sub m =
    find_root (path_text segs) (CHR ''/'' # x @ sub) (smap_insert (path_text segs @ CHR ''/'' # x) [] m)"
  using assms by (subst find_root.simps) (simp add: root_at_def find_last_of_split)

lemma find_root_here: "map_at [] m pre \<noteq> [] \<Longrightarrow> fst (find_root pre sub m) = Some (map_at [] m pre, sub)"
  by (subst find_root.simps) (simp add: root_at_def)

lemma find_root_longest:
  assumes "segments_ok segs" "k \<le> length segs" "map_at [] m (path_text (take k segs)) \<noteq> []"
    "\<forall>j. k < j \<and> j \<le> length segs \<longrightarrow> map_at [] m (path_text (take j segs)) = []"
  shows "fst (find_root (path_text segs) sub m) =
    Some (map_at [] m (path_text (take k segs)), path_text (drop k segs) @ sub)"
  using assms
proof (induction segs arbitrary: m sub rule: rev_induct)
  case (snoc x segs)
  show ?case
  proof (cases "k = length (segs @ [x])")
    case True
    with snoc.prems(3) find_root_here [of m "path_text (segs @ [x])" sub] show ?thesis by simp
  next
    case False
    then have k: "k \<le> length segs" using snoc.prems(2) by simp
    let ?m = "smap_insert (path_text segs @ CHR ''/'' # x) [] m"
    have "map_at [] m (path_text (take (length segs + 1) (segs @ [x]))) = []"
      using snoc.prems(4) k by (metis One_nat_def add.commute length_append_singleton less_Suc_eq_le plus_1_eq_Suc order_refl)
    then have none: "map_at [] m (path_text segs @ CHR ''/'' # x) = []" by simp
    have "\<forall>j. k < j \<and> j \<le> length segs \<longrightarrow> map_at [] ?m (path_text (take j segs)) = []"
      using snoc.prems(4) by (auto simp: map_at_root)
    with snoc.IH [of ?m "CHR ''/'' # x @ sub"] snoc.prems k
    have "fst (find_root (path_text segs) (CHR ''/'' # x @ sub) ?m) =
        Some (map_at [] m (path_text (take k segs)), path_text (drop k segs) @ CHR ''/'' # x @ sub)"
      by (simp add: map_at_root segments_ok_def)
    with find_root_up [OF none, of sub] snoc.prems(1) k show ?thesis by (simp add: segments_ok_def)
  qed
qed (simp add: find_root_here)

lemma find_root_none:
  assumes "segments_ok segs" "\<forall>j \<le> length segs. map_at [] m (path_text (take j segs)) = []"
  shows "fst (find_root (path_text segs) sub m) = None"
  using assms
proof (induction segs arbitrary: m sub rule: rev_induct)
  case Nil
  then show ?case by (subst find_root.simps) (simp add: root_at_def)
next
  case (snoc x segs)
  let ?m = "smap_insert (path_text segs @ CHR ''/'' # x) [] m"
  have none: "map_at [] m (path_text segs @ CHR ''/'' # x) = []"
    using snoc.prems(2) [rule_format, of "length segs + 1"] by simp
  have "map_at [] ?m (path_text (take j segs)) = []" if "j \<le> length segs" for j
    using snoc.prems(2) [rule_format, of j] that by (simp add: map_at_root)
  with snoc.IH [of ?m "CHR ''/'' # x @ sub"] snoc.prems(1) find_root_up [OF none, of sub] show ?case
    by (simp add: segments_ok_def)
qed

lemma replace_path_segments:
  assumes "CHR ''/'' \<notin> set name"
  shows "map_sum id fst (replace_path (path_text segs @ CHR ''/'' # name) s) =
    Inr (case fst (find_root (path_text segs) [] (st_locationToRoot s)) of
           None \<Rightarrow> [] | Some (root, sub) \<Rightarrow> root @ sub @ ''/'' @ name)"
proof -
  have "substr_from (path_text segs @ CHR ''/'' # name) (int (length (path_text segs)) + 1) = Inr name"
    by (simp add: substr_def nat_add_distrib)
  then show ?thesis
    using assms by (auto simp: replace_path_def find_last_of_split Let_def split: prod.splits option.splits)
qed

text \<open>
  \<^bold>\<open>C28.\<close> The file of a target is found by longest prefix matching: of the locations that are a prefix
  of the target's directory at a slash and have a root, the longest one counts. Its root replaces the
  prefix; the rest of the target is kept as it is.
\<close>

theorem replace_path_longest_prefix:
  assumes "segments_ok (segs @ [name])" "k \<le> length segs"
    "map_at [] (st_locationToRoot s) (path_text (take k segs)) \<noteq> []"
    "\<forall>j. k < j \<and> j \<le> length segs \<longrightarrow> map_at [] (st_locationToRoot s) (path_text (take j segs)) = []"
  shows "map_sum id fst (replace_path (path_text (segs @ [name])) s) =
    Inr (map_at [] (st_locationToRoot s) (path_text (take k segs)) @ path_text (drop k segs @ [name]))"
proof -
  have "fst (find_root (path_text segs) [] (st_locationToRoot s)) =
      Some (map_at [] (st_locationToRoot s) (path_text (take k segs)), path_text (drop k segs) @ [])"
    using assms by (intro find_root_longest) (auto simp: segments_ok_def)
  moreover have "CHR ''/'' \<notin> set name" using assms(1) by (simp add: segments_ok_def)
  ultimately show ?thesis by (simp add: replace_path_segments)
qed

text \<open>
  A target under no location with a root yields no path: the handler then answers 404.
\<close>

theorem replace_path_no_location:
  assumes "segments_ok (segs @ [name])" "\<forall>j \<le> length segs. map_at [] (st_locationToRoot s) (path_text (take j segs)) = []"
  shows "map_sum id fst (replace_path (path_text (segs @ [name])) s) = Inr []"
proof -
  have "fst (find_root (path_text segs) [] (st_locationToRoot s)) = None"
    using assms by (intro find_root_none) (auto simp: segments_ok_def)
  moreover have "CHR ''/'' \<notin> set name" using assms(1) by (simp add: segments_ok_def)
  ultimately show ?thesis by (simp add: replace_path_segments)
qed

definition roots :: "string smap \<Rightarrow> statics" where
  "roots m = initial_statics\<lparr>st_locationToRoot := m\<rparr>"

theorem replace_path_longest_prefix_witness:
  "map_sum id fst (replace_path (path_text ([''s'', ''..''] @ [''f.txt'']))
     (roots [(''/s'', ''/data'')])) = Inr (''/data'' @ path_text ([''..''] @ [''f.txt'']))"
proof -
  have "map_at [] (st_locationToRoot (roots [(''/s'', ''/data'')])) (path_text (take 2 [''s'', ''..''])) = []"
      "map_at [] (st_locationToRoot (roots [(''/s'', ''/data'')])) (path_text (take 1 [''s'', ''..''])) = ''/data''"
      "segments_ok ([''s'', ''..''] @ [''f.txt''])"
    by code_simp+
  moreover note * = this(2,3)
  moreover have "j = 2" if "1 < j" "j \<le> length [''s'', ''..'']" for j using that by simp
  ultimately have "\<forall>j. 1 < j \<and> j \<le> length [''s'', ''..''] \<longrightarrow>
      map_at [] (st_locationToRoot (roots [(''/s'', ''/data'')])) (path_text (take j [''s'', ''..''])) = []"
    by metis
  with replace_path_longest_prefix [of "[''s'', ''..'']" "''f.txt''" 1 "roots [(''/s'', ''/data'')]"] * show ?thesis
    by simp
qed

theorem replace_path_no_location_witness:
  "map_sum id fst (replace_path (path_text ([] @ [''f.txt''])) (roots [(''/s'', ''/data'')])) = Inr []"
proof (rule replace_path_no_location)
  show "segments_ok ([] @ [''f.txt''])" by code_simp
  have "map_at [] (st_locationToRoot (roots [(''/s'', ''/data'')])) (path_text (take 0 [])) = []" by code_simp
  then show "\<forall>j \<le> length ([] :: string list). map_at [] (st_locationToRoot (roots [(''/s'', ''/data'')])) (path_text (take j [])) = []"
    by simp
qed


section \<open>What the handler serves\<close>

lemma getline_loop_filter: "getline_loop body fin = body @ filter (\<lambda>c. c \<noteq> LF) fin"
proof (induction body fin rule: getline_loop.induct)
  case (1 body fin)
  show ?case
  proof (cases "fin = []")
    case True
    then show ?thesis by (simp add: getline_loop.simps)
  next
    case False
    let ?line = "takeWhile (\<lambda>c. c \<noteq> LF) fin"
    have "filter (\<lambda>c. c \<noteq> LF) fin = ?line @ filter (\<lambda>c. c \<noteq> LF) (drop (length ?line + 1) fin)"
      by (induction fin) auto
    with 1 [OF False refl] False show ?thesis by (subst getline_loop.simps) (simp add: Let_def)
  qed
qed

lemma configParser_range: "configParser uri \<in> {-1, 0, 1, 2, 3, 4}"
  by (simp add: configParser_def)

lemma getRequestLine_iff: "completes (getRequestLine r) \<longleftrightarrow> req_method r \<in> {GET, POST}"
proof -
  have "str_find ''/'' u < int (length u) \<or> str_find ''/'' u = -1" for u
    by (induction u) (auto simp: Let_def)
  from this [of "req_uri r"] have "completes (substr_from (req_uri r) (str_find ''/'' (req_uri r) + 1))"
    using str_find_ge [of "''/''" "req_uri r"] by (intro substr_in_range) auto
  then show ?thesis by (cases "req_method r") (auto simp: getRequestLine_def completes_iff)
qed

text \<open>
  \<^bold>\<open>C30.\<close> On a file system whose files can all be read, the static handler answers exactly the requests
  with method \<^verbatim>\<open>GET\<close> or \<^verbatim>\<open>POST\<close>. For the other methods building the request line reads past the end of a
  string literal, although the line is never used.
\<close>

theorem static_answers_iff:
  assumes "\<forall>path. file_at D path \<noteq> Unreadable"
  shows "completes (Static_handleRequest D r s) \<longleftrightarrow> req_method r \<in> {GET, POST}"
proof (cases "getRequestLine r")
  case (Inl e)
  then show ?thesis using getRequestLine_iff [of r] by (simp add: Static_handleRequest_def)
next
  case (Inr l)
  obtain path s1 where path: "replace_path (req_uri r) s = Inr (path, s1)"
    using replace_path_total [of "req_uri r" s] by (auto simp: completes_iff)
  have "completes (getBinaryContent D path ty s1)" for ty
    using assms by (auto simp: getBinaryContent_def Let_def split: fs_entry.split)
  moreover have "ty \<in> {0, 1} \<Longrightarrow> completes (formResponse D ty path s1)" for ty
    by (auto simp: formResponse_def Let_def split: fs_entry.split)
  ultimately have "completes (Static_handleRequest D r s)"
    using configParser_range [of "req_uri r"] by (auto simp: Static_handleRequest_def Inr path Let_def)
  with Inr getRequestLine_iff [of r] show ?thesis by simp
qed

text \<open>
  \<^bold>\<open>C29.\<close> Where the target leads to a file, the response carries it under code 200 with its length:
  images and other files byte for byte, text files without their line breaks.
\<close>

theorem static_serves_file:
  assumes "req_method r \<in> {GET, POST}" "configParser (req_uri r) \<in> {1, 2, 3, 4}"
    "replace_path (req_uri r) s = Inr (path, s1)" "path \<noteq> []"
    "file_at D (strip_slashes (current_path D @ path)) = Content t"
  shows "\<exists>res s'. Static_handleRequest D r s = Inr (res, s') \<and> res_code res = sc_ok \<and>
    res_body res = (if configParser (req_uri r) = 1 then filter (\<lambda>c. c \<noteq> LF) t else t) \<and>
    smap_lookup (res_headers res) ''Content-Length'' = Some (to_string (length (res_body res))) \<and>
    res_src_type res = configParser (req_uri r)"
proof -
  obtain l where l: "getRequestLine r = Inr l" using getRequestLine_iff [of r] assms(1) by (auto simp: completes_iff)
  show ?thesis
    using assms(2-5)
    by (auto simp: Static_handleRequest_def l Let_def getBinaryContent_def formResponse_def log_static_def
        getline_loop_filter smap_lookup_def)
qed

definition demo_disk :: filesystem where
  "demo_disk = \<lparr>current_path = ''/srv'',
     file_at = \<lambda>p. if p = ''/srv/data/a.txt'' then Content (''x'' @ [LF] @ ''y'' @ [LF]) else Absent\<rparr>"

definition get :: "Method \<Rightarrow> string \<Rightarrow> request" where
  "get m uri = \<lparr>req_method = m, req_uri = uri, req_headers = [], req_body = [], req_version = ''HTTP/1.1''\<rparr>"

theorem static_answers_iff_witness:
  "completes (Static_handleRequest demo_disk (get GET ''/s/a.txt'') initial_statics) \<and>
   \<not> completes (Static_handleRequest demo_disk (get PUT ''/s/a.txt'') initial_statics)"
proof -
  have "\<forall>path. file_at demo_disk path \<noteq> Unreadable" by (simp add: demo_disk_def)
  note iff = static_answers_iff [OF this]
  show ?thesis using iff [of "get GET ''/s/a.txt''" initial_statics] iff [of "get PUT ''/s/a.txt''" initial_statics]
    by (simp add: get_def)
qed

theorem static_serves_file_witness:
  "\<exists>res s'. Static_handleRequest demo_disk (get GET ''/s/a.txt'') (roots [(''/s'', ''/data'')]) = Inr (res, s') \<and>
     res_body res = ''xy''"
proof -
  let ?R = "replace_path ''/s/a.txt'' (roots [(''/s'', ''/data'')])"
  have c: "configParser ''/s/a.txt'' = 1" by code_simp
  have "isl ?R = False" "fst (projr ?R) = ''/data/a.txt''" by code_simp+
  then have R: "replace_path (req_uri (get GET ''/s/a.txt'')) (roots [(''/s'', ''/data'')]) =
      Inr (''/data/a.txt'', snd (projr ?R))"
    by (cases ?R) (auto simp: get_def)
  have f: "file_at demo_disk (strip_slashes (current_path demo_disk @ ''/data/a.txt'')) = Content (''x'' @ [LF] @ ''y'' @ [LF])"
    by code_simp
  show ?thesis using static_serves_file [OF _ _ R _ f] c by (auto simp: get_def)
qed

section \<open>Registering a root\<close>

text \<open>
  For a block with the single statement \<^verbatim>\<open>root "d/p"\<close> the root registered is what follows \<^verbatim>\<open>d\<close>, from
  its first slash on, and the location is the prefix without its quotation marks.
\<close>

lemma Static_Init_registers:
  assumes "CHR ''/'' \<notin> set d"
  shows "Static_Init (QUOTE # loc @ [QUOTE])
      (Config [Statement [''root'', QUOTE # d @ CHR ''/'' # p @ [QUOTE]] None]) s =
    Inr (s\<lparr>st_locationToRoot := smap_update loc (CHR ''/'' # p) (st_locationToRoot s)\<rparr>)"
proof -
  let ?path = "(''root '' @ QUOTE # d) @ CHR ''/'' # (p @ QUOTE # CHR '';'' # [LF])"
  have "config_ToString 0 (Config [Statement [''root'', QUOTE # d @ CHR ''/'' # p @ [QUOTE]] None]) = ?path"
    by (simp add: indent_def)
  moreover have "str_find ''/'' ?path = int (length d + 6)"
    using str_find_char_split [of "CHR ''/''" "''root '' @ QUOTE # d"] assms by simp
  moreover have "substr ?path (int (length d + 6)) (int (length ?path) - int (length d + 6) - 3) = Inr (CHR ''/'' # p)"
    using substr_middle [of "''root '' @ QUOTE # d" "CHR ''/'' # p" "[QUOTE, CHR '';'', LF]"] by (simp add: ac_simps)
  moreover have "substr (QUOTE # loc @ [QUOTE]) 1 (int (length (QUOTE # loc @ [QUOTE])) - 2) = Inr loc"
    by (simp add: substr_def)
  ultimately show ?thesis by (simp add: Static_Init_def Let_def)
qed

text \<open>The index page announces one byte more than it has.\<close>

lemma index_page_length:
  "smap_lookup (res_headers index_page) ''Content-Length'' = Some ''37'' \<and> length (res_body index_page) = 36"
  by code_simp

end
