(* ===== verification/Server.thy ===== *)
theory Server
  imports Port Proxy_Handler Static_File_Handler
begin

text \<open>
  The server, \<^verbatim>\<open>src/server.cc\<close>, and the program's start, \<^verbatim>\<open>src/main.cc\<close>: the table of handlers by
  location is built from the blocks of the configuration. The sockets are Boost's; what is modelled of
  the acceptor is the port it is bound to.
\<close>

section \<open>Handler objects\<close>

datatype handler_obj =
    Static_Obj
  | Echo_Obj
  | Status_Obj
  | Error_Obj
  | Health_Obj
  | Proxy_Obj proxy_handler
  | Cache_Obj

text \<open>What handlers use of the outside world: Boost, libcurl, the clock, the file system.\<close>

record environment =
  env_boost :: boost_lib
  env_curl :: curl
  env_clock :: clock
  env_disk :: filesystem

text \<open>The virtual call \<^verbatim>\<open>handler->handleRequest(request)\<close>.\<close>

definition handleRequest :: "environment \<Rightarrow> handler_obj \<Rightarrow> handler" where
  "handleRequest env h r s =
     (case h of
        Static_Obj \<Rightarrow> Static_handleRequest (env_disk env) r s
      | Echo_Obj \<Rightarrow> Echo_handleRequest r s
      | Status_Obj \<Rightarrow> Status_handleRequest r s
      | Error_Obj \<Rightarrow> Error_handleRequest r s
      | Health_Obj \<Rightarrow> Health_handleRequest r s
      | Proxy_Obj ph \<Rightarrow> Proxy_handleRequest (env_boost env) (env_curl env) (env_clock env) ph r s
      | Cache_Obj \<Rightarrow> Cache_handleRequest (env_boost env) (env_curl env) (env_clock env) r s)"

interpretation any_h: request_handler "handleRequest env h" for env h
proof
  fix s r res s'
  assume h: "handleRequest env h r s = Inr (res, s')"
  show "prefix (st_status s) (st_status s')"
    using h by (cases h) (simp_all add: handleRequest_def static_h.handle_log echo_h.handle_log status_h.handle_log
        error_h.handle_log health_h.handle_log proxy_h.handle_log cache_h.handle_log)
  assume wf: "statics_wf s"
  show "statics_wf s' \<and> response_wf res"
    using h by (cases h) (simp_all add: handleRequest_def static_h.handle_wf [OF wf] echo_h.handle_wf [OF wf]
        status_h.handle_wf [OF wf] error_h.handle_wf [OF wf] health_h.handle_wf [OF wf] proxy_h.handle_wf [OF wf]
        cache_h.handle_wf [OF wf])
qed

section \<open>Building the table\<close>

text \<open>An unknown type leaves the function without a return.\<close>

definition createHandler :: "boost_lib \<Rightarrow> string \<Rightarrow> config_block \<Rightarrow> statics \<Rightarrow> (handler_obj \<times> statics) outcome" where
  "createHandler B location_path block s =
     (if cb_handler_type block = ''StaticHandler'' then
        bind_out (Static_Init location_path (cb_content block) s) (\<lambda>s'. Inr (Static_Obj, s'))
      else if cb_handler_type block = ''EchoHandler'' then Inr (Echo_Obj, s)
      else if cb_handler_type block = ''StatusHandler'' then Inr (Status_Obj, s)
      else if cb_handler_type block = ''ErrorHandler'' then Inr (Error_Obj, s)
      else if cb_handler_type block = ''HealthHandler'' then Inr (Health_Obj, s)
      else if cb_handler_type block = ''ProxyHandler'' then
        bind_out (Proxy_Init B location_path (cb_content block)) (\<lambda>ph. Inr (Proxy_Obj ph, s))
      else if cb_handler_type block = ''CacheHandler'' then Inr (Cache_Obj, s)
      else Inl Undefined_Behaviour)"

text \<open>\<^verbatim>\<open>handlers_tackers\<close>: a location may also be mapped to a null pointer.\<close>

type_synonym handler_table = "handler_obj option smap"

fun server_handlers :: "boost_lib \<Rightarrow> config_block list \<Rightarrow> handler_table \<Rightarrow> statics \<Rightarrow> (handler_table \<times> statics) outcome" where
  "server_handlers B [] tbl s = Inr (tbl, s)"
| "server_handlers B (block # blocks) tbl s =
     bind_out (createHandler B (cb_prefix block) block s) (\<lambda>(h, s').
       server_handlers B blocks (smap_update (cb_prefix block) (Some h) tbl) s')"

text \<open>
  The port is passed as a \<^verbatim>\<open>short\<close> and bound as an \<^verbatim>\<open>unsigned short\<close>: 16 bits, read signed and then
  unsigned again.
\<close>

definition listen_port :: "int \<Rightarrow> 16 word" where
  "listen_port port_num = (let short = (word_of_int port_num :: 16 word) in word_of_int (sint short))"

section \<open>The start of the program\<close>

text \<open>How the program is after its start: it has ended with a code, or it listens.\<close>

datatype started = Exit_Code int | Listening "16 word" handler_table statics

text \<open>
  \<^verbatim>\<open>main\<close> with the file its argument names. The exceptions of the standard library are caught and
  lead to a normal end; \<^const>\<open>None\<close> is a start that does not return. The port object is not
  initialised: its number before the first check is arbitrary.
\<close>

definition catch_std :: "started outcome \<Rightarrow> started outcome" where
  "catch_std m =
     (case m of Inl e \<Rightarrow> if e = Undefined_Behaviour then Inl e else Inr (Exit_Code 0) | Inr x \<Rightarrow> Inr x)"

definition start_server :: "boost_lib \<Rightarrow> port \<Rightarrow> started outcome" where
  "start_server B p =
     bind_out (server_handlers B (getConfigBlocks p) [] initial_statics)
       (\<lambda>(tbl, s). Inr (Listening (listen_port (getPortNum p)) tbl s))"

definition main :: "boost_lib \<Rightarrow> nat \<Rightarrow> string option \<Rightarrow> int \<Rightarrow> started outcome option" where
  "main B argc file garbage =
     (if argc \<noteq> 2 then Some (Inr (Exit_Code 1))
      else
        let p = \<lparr>portNum = garbage, fileMap = [], port_config_blocks = []\<rparr> in
        case checkPortNum file p of
          Inl e \<Rightarrow> Some (catch_std (Inl e))
        | Inr (False, _) \<Rightarrow> Some (Inr (Exit_Code 1))
        | Inr (True, p') \<Rightarrow>
            map_option (\<lambda>m. catch_std (bind_out m (\<lambda>(_, _, p''). start_server B p'')))
              (setConfigBlocks file (Config []) p'))"

section \<open>The port\<close>

text \<open>
  The detour over a signed 16-bit number loses nothing: the server listens on the port of the
  configuration, also above 32767.
\<close>

theorem listen_port_is_port:
  assumes "1 \<le> n" "n \<le> 65535"
  shows "uint (listen_port n) = n"
proof -
  have "word_of_int (sint (word_of_int n :: 16 word)) = (word_of_int n :: 16 word)" by simp
  moreover have "uint (word_of_int n :: 16 word) = n"
    using assms by (simp add: uint_word_of_int take_bit_int_eq_self)
  ultimately show ?thesis by (simp add: listen_port_def)
qed

theorem listen_port_is_port_witness: "uint (listen_port 40000) = 40000"
  by (rule listen_port_is_port) simp_all


section \<open>A server from its specification\<close>

text \<open>
  What a configuration says, in the terms of its author: for each location a handler of a simple
  kind, the directory of a static one (written with a part before its first slash that is ignored,
  as in \<^verbatim>\<open>"./data"\<close>), or the target of a proxy.
\<close>

datatype location_spec =
    Echo_At | Status_At | Error_At | Health_At | Cache_At
  | Static_At string string
  | Proxy_At string

definition quoted :: "string \<Rightarrow> string" where
  "quoted s = QUOTE # s @ [QUOTE]"

fun spec_type :: "location_spec \<Rightarrow> string" where
  "spec_type Echo_At = ''EchoHandler''"
| "spec_type Status_At = ''StatusHandler''"
| "spec_type Error_At = ''ErrorHandler''"
| "spec_type Health_At = ''HealthHandler''"
| "spec_type Cache_At = ''CacheHandler''"
| "spec_type (Static_At d p) = ''StaticHandler''"
| "spec_type (Proxy_At target) = ''ProxyHandler''"

fun spec_content :: "location_spec \<Rightarrow> NginxConfig" where
  "spec_content (Static_At d p) = Config [Statement [''root'', quoted (d @ CHR ''/'' # p)] None]"
| "spec_content (Proxy_At target) = Config [Statement [''proxy_pass'', quoted target] None]"
| "spec_content _ = Config []"

fun spec_wf :: "location_spec \<Rightarrow> bool" where
  "spec_wf (Static_At d p) = (QUOTE \<notin> set d \<and> CHR ''/'' \<notin> set d \<and> QUOTE \<notin> set p)"
| "spec_wf (Proxy_At target) = (QUOTE \<notin> set target)"
| "spec_wf _ = True"

definition spec_block :: "string \<times> location_spec \<Rightarrow> config_block" where
  "spec_block ls = \<lparr>cb_prefix = quoted (fst ls), cb_handler_type = spec_type (snd ls), cb_content = spec_content (snd ls)\<rparr>"

fun spec_obj :: "string \<Rightarrow> location_spec \<Rightarrow> handler_obj" where
  "spec_obj loc Echo_At = Echo_Obj"
| "spec_obj loc Status_At = Status_Obj"
| "spec_obj loc Error_At = Error_Obj"
| "spec_obj loc Health_At = Health_Obj"
| "spec_obj loc Cache_At = Cache_Obj"
| "spec_obj loc (Static_At d p) = Static_Obj"
| "spec_obj loc (Proxy_At target) = Proxy_Obj \<lparr>serve_addr = loc, proxy_addr = target\<rparr>"

fun spec_root :: "string \<times> location_spec \<Rightarrow> (string \<times> string) list" where
  "spec_root (loc, Static_At d p) = [(loc, CHR ''/'' # p)]"
| "spec_root _ = []"

lemma quoted_wf: "QUOTE \<notin> set s \<Longrightarrow> token_wf (quoted s)"
  by (auto simp: token_wf_def quoted_token_def quoted_def)

lemma quoted_not_location: "quoted s \<noteq> ''location''"
  by (simp add: quoted_def)

lemma words_wf: "token_wf ''root''" "token_wf ''proxy_pass''"
  by (simp_all add: token_wf_def word_token_def ends_normal_def)

lemma spec_type_wf: "token_wf (spec_type sp)"
  by (cases sp) (simp_all add: token_wf_def word_token_def ends_normal_def)

lemma spec_block_wf:
  assumes "QUOTE \<notin> set loc" "spec_wf sp"
  shows "server_block_wf (spec_block (loc, sp))"
  using assms spec_type_wf [of sp]
  by (cases sp) (auto simp: server_block_wf_def spec_block_def flat_def known_handlers_def quoted_wf words_wf
      quoted_not_location not_sym [OF quoted_not_location])

lemma dropWhile_no_quote: "QUOTE \<notin> set s \<Longrightarrow> s \<noteq> [] \<Longrightarrow> dropWhile (\<lambda>c. c = QUOTE) (s @ t) = s @ t"
  by (cases s) auto

lemma trim_quotes:
  assumes "QUOTE \<notin> set s"
  shows "trim_if (\<lambda>c. c = QUOTE) (quoted s) = s"
proof (cases "s = []")
  case False
  with assms dropWhile_no_quote [of s "[QUOTE]"] dropWhile_no_quote [of "rev s" "[]"] show ?thesis
    by (simp add: trim_if_def quoted_def)
qed (simp add: trim_if_def quoted_def)

lemma createHandler_spec:
  assumes "boost B" "QUOTE \<notin> set loc" "spec_wf sp"
  shows "createHandler B (quoted loc) (spec_block (loc, sp)) s =
    Inr (spec_obj loc sp, s\<lparr>st_locationToRoot := fold (\<lambda>(k, v) m. smap_update k v m) (spec_root (loc, sp)) (st_locationToRoot s)\<rparr>)"
proof (cases sp)
  case (Static_At d p)
  then show ?thesis
    using Static_Init_registers [of d loc p s] assms(3) by (simp add: createHandler_def spec_block_def quoted_def)
next
  case (Proxy_At target)
  then show ?thesis
    using assms trim_quotes boost.trim_if_doc [OF assms(1)]
    by (simp add: createHandler_def spec_block_def Proxy_Init_def setLocation_def)
qed (simp_all add: createHandler_def spec_block_def)

lemma server_handlers_spec:
  assumes "boost B" "\<forall>(loc, sp) \<in> set specs. QUOTE \<notin> set loc \<and> spec_wf sp"
  shows "server_handlers B (map spec_block specs) tbl s =
    Inr (fold (\<lambda>(k, v) m. smap_update k v m) (map (\<lambda>(loc, sp). (quoted loc, Some (spec_obj loc sp))) specs) tbl,
         s\<lparr>st_locationToRoot := fold (\<lambda>(k, v) m. smap_update k v m) (concat (map spec_root specs)) (st_locationToRoot s)\<rparr>)"
  using assms(2)
proof (induction specs arbitrary: tbl s)
  case (Cons x specs)
  obtain loc sp where x: "x = (loc, sp)" by (cases x)
  with Cons.prems have "QUOTE \<notin> set loc" "spec_wf sp" by auto
  note create = createHandler_spec [OF assms(1) this, of s]
  have "cb_prefix (spec_block x) = quoted loc" by (simp add: x spec_block_def)
  with create Cons show ?case by (simp add: x)
qed simp

lemma put_all_distinct:
  assumes "distinct (map fst ps)"
  shows "smap_lookup (fold (\<lambda>(k, v) m. smap_update k v m) ps []) = map_of ps"
proof -
  have "map_of (rev ps) = map_of ps"
  proof
    fix k
    have d: "distinct (map fst (rev ps))" using assms by (simp add: rev_map [symmetric])
    show "map_of (rev ps) k = map_of ps k"
    proof (cases "map_of ps k")
      case None
      then have "map_of (rev ps) k = None" unfolding map_of_eq_None_iff by simp
      with None show ?thesis by simp
    next
      case (Some v)
      then have "(k, v) \<in> set (rev ps)" by (simp add: map_of_SomeD)
      with d have "map_of (rev ps) k = Some v" by (rule map_of_is_SomeI)
      with Some show ?thesis by simp
    qed
  qed
  then show ?thesis using headers_map.put_all_lookup [of ps "[]"] by (simp add: headers_map.put_all_def fun_eq_iff map_add_def split: option.splits)
qed

lemma spec_root_keys: "fst ` set (spec_root x) \<subseteq> {fst x}"
  by (cases x rule: spec_root.cases) auto

lemma spec_keys_distinct:
  assumes "distinct (map fst specs)"
  shows "distinct (map fst (map (\<lambda>(loc, sp). (quoted loc, Some (spec_obj loc sp))) specs))"
    "distinct (map fst (concat (map spec_root specs)))"
proof -
  have "map fst (map (\<lambda>(loc, sp). (quoted loc, Some (spec_obj loc sp))) specs) = map quoted (map fst specs)"
    by (induction specs) auto
  moreover have "inj_on quoted A" for A by (auto intro!: inj_onI simp: quoted_def)
  ultimately show "distinct (map fst (map (\<lambda>(loc, sp). (quoted loc, Some (spec_obj loc sp))) specs))"
    using assms by (simp add: distinct_map del: map_map)
  have one: "distinct (map fst (spec_root x))" for x by (cases x rule: spec_root.cases) auto
  have keys: "set (map fst (concat (map spec_root xs))) \<subseteq> set (map fst xs)" for xs
  proof (induction xs)
    case (Cons x xs)
    then show ?case using spec_root_keys [of x] by auto
  qed simp
  show "distinct (map fst (concat (map spec_root specs)))"
    using assms
  proof (induction specs)
    case (Cons x specs)
    have "set (map fst (spec_root x)) \<subseteq> {fst x}" using spec_root_keys [of x] by simp
    moreover have "fst x \<notin> set (map fst specs)" using Cons.prems by simp
    ultimately have "set (map fst (spec_root x)) \<inter> set (map fst (concat (map spec_root specs))) = {}"
      using keys [of specs] by blast
    with Cons one [of x] show ?case by simp
  qed simp
qed

definition spec_table :: "(string \<times> location_spec) list \<Rightarrow> handler_table" where
  "spec_table specs = fold (\<lambda>(k, v) m. smap_update k v m) (map (\<lambda>(loc, sp). (quoted loc, Some (spec_obj loc sp))) specs) []"

definition spec_statics :: "(string \<times> location_spec) list \<Rightarrow> statics" where
  "spec_statics specs = initial_statics\<lparr>st_locationToRoot := fold (\<lambda>(k, v) m. smap_update k v m) (concat (map spec_root specs)) []\<rparr>"

lemma spec_lookups:
  assumes "distinct (map fst specs)"
  shows "smap_lookup (spec_table specs) = map_of (map (\<lambda>(loc, sp). (quoted loc, Some (spec_obj loc sp))) specs)"
    "smap_lookup (st_locationToRoot (spec_statics specs)) = map_of (concat (map spec_root specs))"
  unfolding spec_table_def spec_statics_def statics.select_convs statics.update_convs
  using spec_keys_distinct [OF assms] by (simp_all add: put_all_distinct)

lemma main_listens:
  assumes "boost B" "1 \<le> k" "k \<le> 65535" "\<forall>(loc, sp) \<in> set specs. QUOTE \<notin> set loc \<and> spec_wf sp"
    "file = config_ToString d (server_config (to_string k) (map spec_block specs))"
  shows "main B 2 (Some file) garbage = Some (Inr (Listening (of_nat k) (spec_table specs) (spec_statics specs)))"
proof -
  have bs: "list_all server_block_wf (map spec_block specs)"
    using assms(4) spec_block_wf by (fastforce simp: list_all_iff)
  have "listen_port (int k) = of_nat k" by (simp add: listen_port_def)
  then show ?thesis
    using server_handlers_spec [OF assms(1,4), of "[]" initial_statics]
    by (simp add: main_def Let_def checkPortNum_server [OF assms(2,3) bs assms(5)]
        setConfigBlocks_server [OF bs _ assms(5)] start_server_def getConfigBlocks_def getPortNum_def catch_std_def
        spec_table_def spec_statics_def initial_statics_def)
qed

text \<open>
  \<^bold>\<open>C7.\<close> From the text of a configuration to the running server: started on the configuration that
  states a port and, for distinct locations, their handlers, the program listens on that port. Its table
  maps exactly the quoted locations, each to the handler stated, with the proxies' addresses, and the
  roots of the static locations are those stated.
\<close>

theorem main_starts_server:
  assumes "boost B" "1 \<le> k" "k \<le> 65535" "\<forall>(loc, sp) \<in> set specs. QUOTE \<notin> set loc \<and> spec_wf sp"
    "distinct (map fst specs)"
    "file = config_ToString d (server_config (to_string k) (map spec_block specs))"
  shows "\<exists>tbl s. main B 2 (Some file) garbage = Some (Inr (Listening (of_nat k) tbl s)) \<and>
    smap_lookup tbl = map_of (map (\<lambda>(loc, sp). (quoted loc, Some (spec_obj loc sp))) specs) \<and>
    smap_lookup (st_locationToRoot s) = map_of (concat (map spec_root specs)) \<and>
    st_status s = [] \<and> st_cached_pages s = []"
proof -
  show ?thesis
    using main_listens [OF assms(1-4,6), of garbage] spec_lookups [OF assms(5)]
    by (simp add: spec_statics_def initial_statics_def)
qed

theorem main_starts_server_witness:
  "\<exists>tbl s. main boost_ref 2 (Some (config_ToString 0 (server_config (to_string 8081)
       (map spec_block [(''/echo'', Echo_At), (''/s'', Static_At ''.'' ''data'')])))) 0 =
     Some (Inr (Listening (of_nat 8081) tbl s)) \<and>
   smap_lookup tbl (quoted ''/echo'') = Some (Some Echo_Obj) \<and> smap_lookup (st_locationToRoot s) ''/s'' = Some ''/data''"
  using main_starts_server [OF boost_ref_documented, of 8081 "[(''/echo'', Echo_At), (''/s'', Static_At ''.'' ''data'')]" _ 0 0]
  by fastforce

text \<open>
  A handler type the server does not know is not reported: the start has no defined behaviour on
  a configuration whose first block has one.
\<close>

theorem unknown_handler_undefined:
  assumes "1 \<le> k" "k \<le> 65535" "list_all server_block_wf (b # bs)"
    "cb_handler_type b \<notin> set (''StaticHandler'' # known_handlers)"
    "file = config_ToString d (server_config (to_string k) (b # bs))"
  shows "main B 2 (Some file) garbage = Some (Inl Undefined_Behaviour)"
proof -
  have "createHandler B (cb_prefix b) b s = Inl Undefined_Behaviour" for s
    using assms(4) by (simp add: createHandler_def known_handlers_def)
  then show ?thesis
    by (simp add: main_def Let_def checkPortNum_server [OF assms(1,2,3,5)] setConfigBlocks_server [OF assms(3) _ assms(5)]
        start_server_def getConfigBlocks_def catch_std_def)
qed

theorem unknown_handler_undefined_witness:
  "main boost_ref 2 (Some (config_ToString 0 (server_config (to_string 80)
     [\<lparr>cb_prefix = ''/x'', cb_handler_type = ''FooHandler'', cb_content = Config [Statement [''a''] None]\<rparr>]))) 0 =
   Some (Inl Undefined_Behaviour)"
  by (rule unknown_handler_undefined [where d = 0 and bs = "[]" and k = 80 and
        b = "\<lparr>cb_prefix = ''/x'', cb_handler_type = ''FooHandler'', cb_content = Config [Statement [''a''] None]\<rparr>"]) (simp, simp, code_simp, code_simp, simp)

end
