(* ===== verification/Logging.thy ===== *)
theory Logging
  imports Prelude
begin

text \<open>
  The log, \<^verbatim>\<open>include/logging.h\<close> and \<^verbatim>\<open>src/logging.cc\<close>. The state is what the logging core keeps: the
  three global attributes the program sets (address of the client, path of the request, code of the
  response) and the records written so far, each with the attributes as they were when it was written.
  Boost.Log prints a record through the formatter of \<^verbatim>\<open>logging.cc\<close>; it is a parameter, with what the
  formatter relies on in the locale \<open>log_library\<close>.
\<close>

section \<open>Severities\<close>

datatype severity = sev_trace | sev_debug | sev_info | sev_warning | sev_error | sev_fatal

fun severity_level :: "severity \<Rightarrow> nat" where
  "severity_level sev_trace = 0"
| "severity_level sev_debug = 1"
| "severity_level sev_info = 2"
| "severity_level sev_warning = 3"
| "severity_level sev_error = 4"
| "severity_level sev_fatal = 5"

lemma severity_level_inject: "severity_level a = severity_level b \<Longrightarrow> a = b"
  by (cases a; cases b) simp_all

instantiation severity :: linorder
begin

definition less_eq_severity :: "severity \<Rightarrow> severity \<Rightarrow> bool" where
  "less_eq_severity a b = (severity_level a \<le> severity_level b)"

definition less_severity :: "severity \<Rightarrow> severity \<Rightarrow> bool" where
  "less_severity a b = (severity_level a < severity_level b)"

instance
  by standard (auto simp: less_eq_severity_def less_severity_def intro: severity_level_inject)

end

section \<open>Attributes and records\<close>

record log_record =
  lr_clientIp :: string
  lr_reqPath :: string
  lr_resCode :: string
  lr_severity :: severity
  lr_message :: string

record logger =
  log_clientIp :: string
  log_reqPath :: string
  log_resCode :: string
  log_records :: "log_record list"

text \<open>The logger after its initialisation: the attributes are registered empty.\<close>

definition initial_logger :: logger where
  "initial_logger = \<lparr>log_clientIp = [], log_reqPath = [], log_resCode = [], log_records = []\<rparr>"

definition setIp :: "string \<Rightarrow> logger \<Rightarrow> logger" where
  "setIp ip l = l\<lparr>log_clientIp := ''[IP: '' @ ip @ '']''\<rparr>"

definition setPath :: "string \<Rightarrow> logger \<Rightarrow> logger" where
  "setPath path l = l\<lparr>log_reqPath := ''[Request_Path: '' @ path @ '']''\<rparr>"

definition setStatus :: "string \<Rightarrow> logger \<Rightarrow> logger" where
  "setStatus status l = l\<lparr>log_resCode := ''[Response_Code: '' @ status @ '']''\<rparr>"

definition log_reset :: "logger \<Rightarrow> logger" where
  "log_reset l = l\<lparr>log_reqPath := [], log_resCode := []\<rparr>"

definition resetIp :: "logger \<Rightarrow> logger" where
  "resetIp l = l\<lparr>log_clientIp := []\<rparr>"

text \<open>The filter of the core: \<^verbatim>\<open>severity >= trace\<close>.\<close>

definition log_filter :: "severity \<Rightarrow> bool" where
  "log_filter sev = (sev \<ge> sev_trace)"

text \<open>One \<^verbatim>\<open>INFO\<close>, \<^verbatim>\<open>WARN\<close> or \<^verbatim>\<open>ERROR\<close> statement.\<close>

definition log_write :: "severity \<Rightarrow> string \<Rightarrow> logger \<Rightarrow> logger" where
  "log_write sev msg l =
     (if log_filter sev
      then l\<lparr>log_records := log_records l @
        [\<lparr>lr_clientIp = log_clientIp l, lr_reqPath = log_reqPath l, lr_resCode = log_resCode l, lr_severity = sev, lr_message = msg\<rparr>]\<rparr>
      else l)"

definition log_messages :: "(severity \<times> string) list \<Rightarrow> logger \<Rightarrow> logger" where
  "log_messages ms l = fold (\<lambda>(sev, msg). log_write sev msg) ms l"

lemmas logger_defs = setIp_def setPath_def setStatus_def log_reset_def resetIp_def

lemma log_filter_all [simp]: "log_filter sev"
  by (simp add: log_filter_def less_eq_severity_def)

lemma log_messages_simps [simp]:
  "log_messages [] l = l" "log_messages ((sev, msg) # ms) l = log_messages ms (log_write sev msg l)"
  by (simp_all add: log_messages_def)

text \<open>The records a sequence of messages adds, all under the attributes that were set before.\<close>

lemma log_messages_records:
  "log_messages ms l = l\<lparr>log_records := log_records l @
     map (\<lambda>(sev, msg). \<lparr>lr_clientIp = log_clientIp l, lr_reqPath = log_reqPath l, lr_resCode = log_resCode l,
       lr_severity = sev, lr_message = msg\<rparr>) ms\<rparr>"
  by (induction ms arbitrary: l) (auto simp: log_write_def)

section \<open>The sinks\<close>

text \<open>
  What the formatter uses of Boost.Log: the value of the attribute \<^verbatim>\<open>LineID\<close> of the \<open>n\<close>-th record
  (from 0), the name of a severity, and \<^verbatim>\<open>expressions::format\<close>, which replaces \<^verbatim>\<open>%i%\<close> by the \<open>i\<close>-th
  argument. A format is given here by its pieces, texts and argument numbers.
\<close>

datatype piece = Txt string | Arg nat

fun format_text :: "piece list \<Rightarrow> string" where
  "format_text [] = []"
| "format_text (Txt t # ps) = t @ format_text ps"
| "format_text (Arg i # ps) = ''%'' @ to_string i @ ''%'' @ format_text ps"

fun expand :: "piece list \<Rightarrow> string list \<Rightarrow> string" where
  "expand [] args = []"
| "expand (Txt t # ps) args = t @ expand ps args"
| "expand (Arg i # ps) args = args ! (i - 1) @ expand ps args"

definition piece_ok :: "nat \<Rightarrow> piece \<Rightarrow> bool" where
  "piece_ok n p = (case p of Txt t \<Rightarrow> CHR ''%'' \<notin> set t | Arg i \<Rightarrow> 1 \<le> i \<and> i \<le> n)"

record log_lib =
  lib_line_id :: "nat \<Rightarrow> 32 word"
  lib_severity :: "severity \<Rightarrow> string"
  lib_format :: "string \<Rightarrow> string list \<Rightarrow> string"

locale log_library =
  fixes L :: log_lib
  assumes line_id_doc: "lib_line_id L n = word_of_nat (n + 1)"
    and severity_doc: "lib_severity L sev_info = ''info''" "lib_severity L sev_warning = ''warning''"
      "lib_severity L sev_error = ''error''"
    and format_doc: "list_all (piece_ok (length args)) ps \<Longrightarrow> lib_format L (format_text ps) args = expand ps args"

text \<open>The formatter of both sinks, and what they print: the lines of the log file.\<close>

definition logFmt :: string where
  "logFmt = ''[%1%][ResponseMetrics]%2%%3%%4%[%5%] %6%''"

definition format_record :: "log_lib \<Rightarrow> nat \<Rightarrow> log_record \<Rightarrow> string" where
  "format_record L n r =
     lib_format L logFmt [to_string (unat (lib_line_id L n)), lr_clientIp r, lr_reqPath r, lr_resCode r,
       lib_severity L (lr_severity r), lr_message r]"

definition log_file :: "log_lib \<Rightarrow> logger \<Rightarrow> string list" where
  "log_file L l = map (\<lambda>(n, r). format_record L n r) (enumerate 0 (log_records l))"

text \<open>A line of the log as the formatter states it: number, attributes, severity, message.\<close>

definition log_line :: "nat \<Rightarrow> string \<Rightarrow> string \<Rightarrow> string \<Rightarrow> string" where
  "log_line n attrs sev msg = ''['' @ to_string n @ ''][ResponseMetrics]'' @ attrs @ ''['' @ sev @ ''] '' @ msg"

lemma enumerate_map: "enumerate n (map f xs) = map (\<lambda>(k, x). (k, f x)) (enumerate n xs)"
  by (induction xs arbitrary: n) simp_all

lemma enumerate_shift: "enumerate (n + m) xs = map (\<lambda>(k, x). (k + m, x)) (enumerate n xs)"
proof (induction xs arbitrary: n)
  case (Cons x xs)
  from Cons.IH [of "Suc n"] show ?case by simp
qed simp

context log_library
begin

lemma record_line:
  "format_record L n r =
     ''['' @ to_string (unat (word_of_nat (n + 1) :: 32 word)) @ ''][ResponseMetrics]'' @ lr_clientIp r @ lr_reqPath r @ lr_resCode r @
     ''['' @ lib_severity L (lr_severity r) @ ''] '' @ lr_message r"
proof -
  define ps where "ps = [Txt ''['', Arg 1, Txt ''][ResponseMetrics]'', Arg 2, Arg 3, Arg 4, Txt ''['', Arg 5, Txt ''] '', Arg 6]"
  define args where "args = [to_string (unat (lib_line_id L n)), lr_clientIp r, lr_reqPath r, lr_resCode r,
       lib_severity L (lr_severity r), lr_message r]"
  have "format_text ps = logFmt" unfolding ps_def by code_simp
  moreover have "list_all (piece_ok 6) ps" unfolding ps_def by code_simp
  moreover have "length args = 6" by (simp add: args_def)
  ultimately have "lib_format L logFmt args = expand ps args" using format_doc [of args ps] by simp
  moreover have "format_record L n r = lib_format L logFmt args" by (simp add: format_record_def args_def)
  ultimately have "format_record L n r = expand ps args" by simp
  then show ?thesis by (simp add: ps_def args_def line_id_doc)
qed

lemma log_file_lines:
  assumes "length (log_records l) < 2 ^ 32"
  shows "log_file L l = map (\<lambda>(n, r). log_line n (lr_clientIp r @ lr_reqPath r @ lr_resCode r) (lib_severity L (lr_severity r)) (lr_message r))
    (enumerate 1 (log_records l))"
proof -
  have num: "unat (word_of_nat (n + 1) :: 32 word) = n + 1" if "n < length (log_records l)" for n
    using assms that unat_of_nat [where 'a = 32, of "n + 1"] by (simp del: of_nat_add of_nat_Suc)
  have "format_record L n r = log_line (n + 1) (lr_clientIp r @ lr_reqPath r @ lr_resCode r) (lib_severity L (lr_severity r)) (lr_message r)"
    if "(n, r) \<in> set (enumerate 0 (log_records l))" for n r
    using num [of n] that by (auto simp: record_line log_line_def in_set_enumerate_eq)
  then show ?thesis
    unfolding log_file_def using enumerate_shift [of 0 1 "log_records l"] by (auto simp: comp_def split_def)
qed

end

text \<open>An instance: a scanner for the formats, the names of the severities, the counter from 1.\<close>

function format_scan :: "string \<Rightarrow> string list \<Rightarrow> string" where
  "format_scan [] args = []"
| "format_scan (c # cs) args =
     (if c = CHR ''%'' then
        args ! (nat (dec_val (takeWhile (\<lambda>d. d \<noteq> CHR ''%'') cs)) - 1) @ format_scan (drop 1 (dropWhile (\<lambda>d. d \<noteq> CHR ''%'') cs)) args
      else c # format_scan cs args)"
  by pat_completeness auto
termination
proof (relation "measure (\<lambda>(f, args). length f)")
  fix c :: char and cs args
  have "length (dropWhile (\<lambda>d. d \<noteq> CHR ''%'') cs) \<le> length cs" by (rule length_dropWhile_le)
  then show "((drop 1 (dropWhile (\<lambda>d. d \<noteq> CHR ''%'') cs), args), c # cs, args) \<in> measure (\<lambda>(f, args). length f)" by simp
qed simp_all

fun severity_text :: "severity \<Rightarrow> string" where
  "severity_text sev_trace = ''trace''"
| "severity_text sev_debug = ''debug''"
| "severity_text sev_info = ''info''"
| "severity_text sev_warning = ''warning''"
| "severity_text sev_error = ''error''"
| "severity_text sev_fatal = ''fatal''"

definition log_ref :: log_lib where
  "log_ref = \<lparr>lib_line_id = (\<lambda>n. word_of_nat (n + 1)), lib_severity = severity_text, lib_format = format_scan\<rparr>"

lemma format_scan_text: "CHR ''%'' \<notin> set t \<Longrightarrow> format_scan (t @ rest) args = t @ format_scan rest args"
  by (induction t) auto

lemma format_scan_arg: "format_scan (''%'' @ to_string i @ ''%'' @ rest) args = args ! (i - 1) @ format_scan rest args"
proof -
  have "CHR ''%'' \<notin> set (to_string i)" using to_string_digits [of "CHR ''%''" i] by (auto simp: isdigit_def)
  then have "takeWhile (\<lambda>d. d \<noteq> CHR ''%'') (to_string i @ CHR ''%'' # rest) = to_string i"
    "dropWhile (\<lambda>d. d \<noteq> CHR ''%'') (to_string i @ CHR ''%'' # rest) = CHR ''%'' # rest"
    by (auto simp: takeWhile_append dropWhile_append3)
  then show ?thesis by simp
qed

lemma format_scan_expands: "list_all (piece_ok (length args)) ps \<Longrightarrow> format_scan (format_text ps) args = expand ps args"
proof (induction ps)
  case (Cons p ps)
  then show ?case using format_scan_arg by (cases p) (simp_all add: piece_ok_def format_scan_text)
qed simp

interpretation ref_log: log_library log_ref
  by unfold_locales (simp_all add: log_ref_def format_scan_expands)

lemma log_ref_documented: "log_library log_ref"
  by (rule ref_log.log_library_axioms)

end
