(* ===== verification/Handler_Log.thy ===== *)
theory Handler_Log
  imports Server Logging
begin

text \<open>
  What the request handlers and \<^verbatim>\<open>main\<close> write to the log. For every function that contains log
  statements there is a function here that follows the same branches and gives the messages of a call
  in order; a call that ends in a fault has written the messages before it. libcurl documents that
  setting \<^verbatim>\<open>CURLOPT_WRITEFUNCTION\<close> always succeeds, so the message for its failure is left out.
\<close>

section \<open>The static file handler\<close>

definition binary_messages :: "filesystem \<Rightarrow> string \<Rightarrow> (severity \<times> string) list" where
  "binary_messages D filename =
     (let return_str = strip_slashes (current_path D @ filename) in
      case file_at D return_str of Absent \<Rightarrow> [(sev_info, ''ERROR: '' @ return_str @ '' not found.'')] | _ \<Rightarrow> [])"

definition form_messages :: "filesystem \<Rightarrow> int \<Rightarrow> string \<Rightarrow> (severity \<times> string) list" where
  "form_messages D src_type file_path =
     (let local_path = strip_slashes (current_path D @ file_path) in
      (sev_info, ''CALLING FILE:'' @ local_path) #
      (if src_type = 1 \<and> file_at D local_path = Absent then [(sev_info, ''ERROR: '' @ local_path @ '' not found.'')] else []))"

definition Static_messages :: "filesystem \<Rightarrow> request \<Rightarrow> statics \<Rightarrow> (severity \<times> string) list" where
  "Static_messages D r s =
     (case getRequestLine r of
        Inl _ \<Rightarrow> []
      | Inr _ \<Rightarrow>
          let src_type = configParser (req_uri r) in
          if src_type = 2 \<or> src_type = 3 \<or> src_type = 4 then
            (case replace_path (req_uri r) s of Inl _ \<Rightarrow> [] | Inr (file_path, _) \<Rightarrow> binary_messages D file_path)
          else if src_type = -1 then [(sev_info, ''FILE NOT FOUND '' @ req_uri r)]
          else
            (case replace_path (req_uri r) s of
               Inl _ \<Rightarrow> []
             | Inr (file_path, _) \<Rightarrow>
                 if file_path = [] then [(sev_info, ''FILE NOT FOUND'' @ req_uri r)]
                 else form_messages D src_type file_path))"

section \<open>The proxy handler\<close>

definition control_messages :: "clock \<Rightarrow> int smap \<Rightarrow> string \<Rightarrow> bool \<Rightarrow> statics \<Rightarrow> (severity \<times> string) list" where
  "control_messages clk hdrs uri must_validate s =
     (case (if must_validate then None else smap_lookup (st_cached_pages s) uri) of
        None \<Rightarrow> []
      | Some page \<Rightarrow>
          let max_age = map_at 0 hdrs ''max-age''; max_stale = map_at 0 hdrs ''max-stale'';
              min_fresh = map_at 0 hdrs ''min-fresh'' in
          (if max_age \<noteq> 0 \<and> max_stale \<noteq> 0 then
             let stale_ok = (\<not> max_age > max_stale) in
             if \<not> (stale_ok \<and> couldStale page max_stale (now_stale clk)) then [(sev_info, ''The cache exceeds the given max-stale.'')]
             else if isExpired page max_age (now_expired clk) then [(sev_info, ''The cache exceeds the given max-age.'')]
             else []
           else if max_age \<noteq> 0 then
             if isExpired page max_age (now_expired clk) then [(sev_info, ''The cache exceeds the given max-age.'')] else []
           else if max_stale \<noteq> 0 then
             if \<not> couldStale page max_stale (now_stale clk) then [(sev_info, ''The cache exceeds the given max-stale.'')] else []
           else []) @
          (if min_fresh \<noteq> 0 \<and> \<not> isFresh page min_fresh (now_fresh clk)
           then [(sev_info, ''The cache is not at least fresh for the given time.'')] else []))"

definition dest_messages :: "proxy_handler \<Rightarrow> string \<Rightarrow> (severity \<times> string) list" where
  "dest_messages ph uri =
     (if starts_with ''http'' uri then []
      else case proxy_dest ph uri of
        Inl _ \<Rightarrow> []
      | Inr dest \<Rightarrow> [(sev_info, ''DESTINATION: '' @ dest), (sev_info, ''PROXY ADDR: '' @ proxy_addr ph)])"

definition received_messages :: "proxy_handler \<Rightarrow> string smap \<Rightarrow> (severity \<times> string) list" where
  "received_messages ph header_data =
     (case smap_lookup header_data ''Content-Type'' of
        Some ty \<Rightarrow>
          if str_find ''text/html'' ty \<noteq> -1 then
            (case target_addr ph of Inl _ \<Rightarrow> [] | Inr t \<Rightarrow> [(sev_info, ''TARGET ADDR: '' @ t)])
          else []
      | None \<Rightarrow> [])"

definition fetch_messages :: "curl \<Rightarrow> proxy_handler \<Rightarrow> string \<Rightarrow> (severity \<times> string) list" where
  "fetch_messages C ph dest =
     (if \<not> curl_init C then [(sev_error, ''CURL ERROR'')]
      else
        let errors =
          (if curl_setopt_ok C CURLOPT_URL dest then [] else [(sev_error, ''curl could not set proxy address'')]) @
          (if curl_setopt_ok C CURLOPT_FOLLOWLOCATION dest then [] else [(sev_error, ''curl could not set redirect follow-on'')]) @
          (if curl_setopt_ok C CURLOPT_MAXREDIRS dest then [] else [(sev_error, ''curl could not set max redirects'')]) @
          (if curl_setopt_ok C CURLOPT_TIMEOUT dest then [] else [(sev_error, ''curl could not set timeout for requests'')])
        in if errors \<noteq> [] then errors
           else let t = curl_perform C dest in
             case read_header_lines (tr_header_lines t) [] of
               Inl _ \<Rightarrow> []
             | Inr header_data \<Rightarrow>
                 if tr_ok t then received_messages ph header_data
                 else [(sev_error, ''FAILURE: Curl request failed'')])"

definition Proxy_messages :: "boost_lib \<Rightarrow> curl \<Rightarrow> clock \<Rightarrow> proxy_handler \<Rightarrow> request \<Rightarrow> statics \<Rightarrow> (severity \<times> string) list" where
  "Proxy_messages B C clk ph r s =
     (sev_info, ''REQ URI: '' @ req_uri r) #
     (case parse_cache_hdrs B (req_headers r) of
        Inl _ \<Rightarrow> []
      | Inr hdrs \<Rightarrow>
          let must_validate = (map_at 0 hdrs ''no-cache'' \<noteq> 0) in
          control_messages clk hdrs (req_uri r) must_validate s @
          (case cache_control clk hdrs (req_uri r) must_validate
                  \<lparr>can_use = False, cache_only = False, should_cache = True\<rparr> s of
             (_, fl, s1) \<Rightarrow>
               if can_use fl then [(sev_info, ''Cache Hit With URI: '' @ req_uri r)]
               else if cache_only fl then [(sev_info, ''No cache present for the given request.'')]
               else dest_messages ph (req_uri r) @
                 (case proxy_dest ph (req_uri r) of
                    Inl _ \<Rightarrow> []
                  | Inr dest \<Rightarrow>
                      fetch_messages C ph dest @
                      (case proxy_fetch C ph dest of
                         Inl _ \<Rightarrow> []
                       | Inr res \<Rightarrow>
                           if should_cache fl \<and> res_code res = sc_ok
                           then [(sev_info, ''Cache Miss With URI: '' @ req_uri r)] else []))))"

text \<open>The virtual call; the other handlers write nothing.\<close>

definition handler_messages :: "environment \<Rightarrow> handler_obj \<Rightarrow> request \<Rightarrow> statics \<Rightarrow> (severity \<times> string) list" where
  "handler_messages env h r s =
     (case h of
        Static_Obj \<Rightarrow> Static_messages (env_disk env) r s
      | Proxy_Obj ph \<Rightarrow> Proxy_messages (env_boost env) (env_curl env) (env_clock env) ph r s
      | Cache_Obj \<Rightarrow> Proxy_messages (env_boost env) (env_curl env) (env_clock env) \<lparr>serve_addr = [], proxy_addr = []\<rparr> r s
      | _ \<Rightarrow> [])"

section \<open>The start of the program\<close>

text \<open>An \<^verbatim>\<open>int\<close> put into a stream.\<close>

definition int_text :: "int \<Rightarrow> string" where
  "int_text n = (if n < 0 then ''-'' else []) @ to_string (nat \<bar>n\<bar>)"

definition main_messages :: "nat \<Rightarrow> string option \<Rightarrow> int \<Rightarrow> (severity \<times> string) list" where
  "main_messages argc file garbage =
     (if argc \<noteq> 2 then []
      else
        case checkPortNum file \<lparr>portNum = garbage, fileMap = [], port_config_blocks = []\<rparr> of
          Inl _ \<Rightarrow> []
        | Inr (False, _) \<Rightarrow> [(sev_error, ''Invalid Port Number'')]
        | Inr (True, p') \<Rightarrow>
            (case setConfigBlocks file (Config []) p' of
               Some (Inr (_, _, p'')) \<Rightarrow>
                 [(sev_info, ''DONE''), (sev_info, ''Start listening on port '' @ int_text (getPortNum p'')),
                  (sev_info, ''READY TO ACCEPT'')]
             | _ \<Rightarrow> []))"

text \<open>The log when \<^verbatim>\<open>main\<close> starts the event loop.\<close>

definition main_logger :: "nat \<Rightarrow> string option \<Rightarrow> int \<Rightarrow> logger" where
  "main_logger argc file garbage = log_messages (main_messages argc file garbage) initial_logger"

lemma main_messages_server:
  assumes "1 \<le> k" "k \<le> 65535" "\<forall>(loc, sp) \<in> set specs. QUOTE \<notin> set loc \<and> spec_wf sp"
    "file = config_ToString d (server_config (to_string k) (map spec_block specs))"
  shows "main_messages 2 (Some file) garbage =
    [(sev_info, ''DONE''), (sev_info, ''Start listening on port '' @ to_string k), (sev_info, ''READY TO ACCEPT'')]"
proof -
  have bs: "list_all server_block_wf (map spec_block specs)"
    using assms(3) spec_block_wf by (fastforce simp: list_all_iff)
  then show ?thesis
    by (simp add: main_messages_def checkPortNum_server [OF assms(1,2) bs assms(4)] setConfigBlocks_server [OF bs _ assms(4)]
        getPortNum_def int_text_def)
qed

lemma main_logger_quiet: "log_resCode (main_logger argc file garbage) = []" "log_reqPath (main_logger argc file garbage) = []"
    "log_clientIp (main_logger argc file garbage) = []"
  by (simp_all add: main_logger_def log_messages_records initial_logger_def)

text \<open>The handler of the interrupt signal.\<close>

definition signal_handler :: "logger \<Rightarrow> int \<times> logger" where
  "signal_handler l = (1, log_write sev_info ''Server close socket'' (resetIp l))"

section \<open>What the messages tell\<close>

text \<open>A missing file is reported in the log exactly when the answer is 404.\<close>

abbreviation reports_missing :: "(severity \<times> string) list \<Rightarrow> bool" where
  "reports_missing \<equiv> list_ex (\<lambda>(sev, msg). prefix ''FILE NOT FOUND'' msg \<or> prefix ''ERROR: '' msg)"

lemma binary_missing:
  "getBinaryContent D f ty s = Inr (res, s') \<Longrightarrow> res_code res = sc_not_found \<longleftrightarrow> reports_missing (binary_messages D f)"
  by (cases "file_at D (strip_slashes (current_path D @ f))")
    (auto simp: getBinaryContent_def binary_messages_def log_static_def file_not_found_def Let_def split: prod.splits)

lemma form_missing:
  "formResponse D ty f s = Inr (res, s') \<Longrightarrow> res_code res = sc_not_found \<longleftrightarrow> reports_missing (form_messages D ty f)"
  by (cases "file_at D (strip_slashes (current_path D @ f))")
    (auto simp: formResponse_def form_messages_def log_static_def file_not_found_def index_page_def Let_def split: if_splits)

lemma static_missing_logged:
  assumes "Static_handleRequest D r s = Inr (res, s')"
  shows "res_code res = sc_not_found \<longleftrightarrow> reports_missing (Static_messages D r s)"
proof -
  let ?ty = "configParser (req_uri r)"
  obtain l where l: "getRequestLine r = Inr l" using assms by (auto simp: Static_handleRequest_def bind_out_Inr)
  obtain f s1 where f: "replace_path (req_uri r) s = Inr (f, s1)" using replace_path_total [of "req_uri r" s] by (auto simp: completes_iff)
  consider (binary) "?ty \<in> {2, 3, 4}" | (dir) "?ty = -1" | (txt_file) "?ty \<notin> {-1, 2, 3, 4}" by blast
  then show ?thesis
  proof cases
    case binary
    then have "getBinaryContent D f ?ty s1 = Inr (res, s')" "Static_messages D r s = binary_messages D f"
      using assms l f by (auto simp: Static_handleRequest_def Static_messages_def Let_def)
    with binary_missing show ?thesis by simp
  next
    case dir
    then show ?thesis using assms l by (auto simp: Static_handleRequest_def Static_messages_def Let_def file_not_found_def)
  next
    case txt_file
    show ?thesis
    proof (cases "f = []")
      case True
      then show ?thesis using assms l f txt_file by (auto simp: Static_handleRequest_def Static_messages_def Let_def file_not_found_def)
    next
      case False
      then have "formResponse D ?ty f s1 = Inr (res, s')" "Static_messages D r s = form_messages D ?ty f"
        using assms l f txt_file by (auto simp: Static_handleRequest_def Static_messages_def Let_def)
      with form_missing show ?thesis by simp
    qed
  qed
qed

text \<open>Every error the proxy writes to the log is answered with 500.\<close>

lemma proxy_errors_answered:
  assumes "Proxy_handleRequest B C clk ph r s = Inr (res, s')" "list_ex (\<lambda>(sev, msg). sev = sev_error) (Proxy_messages B C clk ph r s)"
  shows "res_code res = sc_internal_server_error"
proof -
  have control: "\<not> list_ex (\<lambda>(sev, msg). sev = sev_error) (control_messages clk hdrs uri mv s)" for hdrs uri mv
    by (auto simp: control_messages_def Let_def split: option.splits)
  have dest: "\<not> list_ex (\<lambda>(sev, msg). sev = sev_error) (dest_messages ph uri)" for uri
    by (auto simp: dest_messages_def split: sum.splits)
  have fetch: "res_code res = sc_internal_server_error"
    if "list_ex (\<lambda>(sev, msg). sev = sev_error) (fetch_messages C ph dest)" "proxy_fetch C ph dest = Inr res" for dest res
    using that by (auto simp: fetch_messages_def proxy_fetch_def Let_def bind_out_Inr received_messages_def error_response_def
        split: if_splits sum.splits option.splits)
  show ?thesis
    using assms control dest fetch
    by (auto simp: Proxy_handleRequest_def Proxy_messages_def bind_out_Inr Let_def addRecord_def split: sum.splits prod.splits if_splits)
qed

end
