(* ===== verification/Dispatcher.thy ===== *)
theory Dispatcher
  imports Simple_Handlers
begin

text \<open>
  Sending a response, \<^verbatim>\<open>src/dispatcher.cc\<close>: the status line, the header lines in the order of the
  map, an empty line, and the body. Texts go out in one asynchronous write; other bodies follow
  with \<^verbatim>\<open>write_some\<close>, which may accept only a part of what it is offered.
\<close>

section \<open>Status lines\<close>

fun Dispatcher_ToString :: "StatusCode \<Rightarrow> string" where
  "Dispatcher_ToString sc_ok = ''HTTP/1.1 200 OK'' @ crlf"
| "Dispatcher_ToString sc_created = ''HTTP/1.1 201 Created'' @ crlf"
| "Dispatcher_ToString sc_accepted = ''HTTP/1.1 202 Accepted'' @ crlf"
| "Dispatcher_ToString sc_no_content = ''HTTP/1.1 204 No Content'' @ crlf"
| "Dispatcher_ToString sc_moved_permanently = ''HTTP/1.1 301 Moved Permanently'' @ crlf"
| "Dispatcher_ToString sc_moved_temporarily = ''HTTP/1.1 302 Moved Temporarily'' @ crlf"
| "Dispatcher_ToString sc_not_modified = ''HTTP/1.1 304 Not Modified'' @ crlf"
| "Dispatcher_ToString sc_bad_request = ''HTTP/1.1 400 Bad Request'' @ crlf"
| "Dispatcher_ToString sc_unauthorized = ''HTTP/1.1 401 Unauthorized'' @ crlf"
| "Dispatcher_ToString sc_forbidden = ''HTTP/1.1 403 Forbidden'' @ crlf"
| "Dispatcher_ToString sc_not_found = ''HTTP/1.1 404 Not Found'' @ crlf"
| "Dispatcher_ToString sc_internal_server_error = ''HTTP/1.1 500 Internal Server Error'' @ crlf"
| "Dispatcher_ToString sc_not_implemented = ''HTTP/1.1 501 Not Implemented'' @ crlf"
| "Dispatcher_ToString sc_bad_gateway = ''HTTP/1.1 502 Bad Gateway'' @ crlf"
| "Dispatcher_ToString sc_service_unavailable = ''HTTP/1.1 503 Service Unavailable'' @ crlf"
| "Dispatcher_ToString _ = ''HTTP/1.1 500 Internal Server Error'' @ crlf"

section \<open>The writes\<close>

text \<open>
  The loop \<^verbatim>\<open>while (total_write != size)\<close>. The socket is a parameter: \<open>accept k n\<close> is the number of
  bytes the \<open>k\<close>-th call of \<^verbatim>\<open>write_some\<close> takes of the \<open>n\<close> it is offered. The result is the list of
  pieces taken.
\<close>

partial_function (option) write_loop :: "(nat \<Rightarrow> nat \<Rightarrow> nat) \<Rightarrow> nat \<Rightarrow> nat \<Rightarrow> string \<Rightarrow> string list option" where
  "write_loop accept k total_write content =
     (if total_write = length content then Some []
      else let n = accept k (length content - total_write) in
        Option.bind (write_loop accept (Suc k) (total_write + n) content)
          (\<lambda>ws. Some (take n (drop total_write content) # ws)))"

definition response_head :: "response \<Rightarrow> string" where
  "response_head res =
     Dispatcher_ToString (res_code res) @
     concat (map (\<lambda>(k, v). format_header k v) (res_headers res)) @ format_end"

text \<open>Everything handed to the socket, in order.\<close>

definition dispatch :: "(nat \<Rightarrow> nat \<Rightarrow> nat) \<Rightarrow> response \<Rightarrow> string list option" where
  "dispatch accept res =
     (if res_src_type res < 2 then Some [response_head res @ res_body res]
      else map_option (\<lambda>ws. response_head res # ws) (write_loop accept 0 0 (res_body res)))"

section \<open>All bytes are sent\<close>

text \<open>What is documented of \<^verbatim>\<open>write_some\<close>: it takes at least one byte, and no more than offered.\<close>

definition writes_some :: "(nat \<Rightarrow> nat \<Rightarrow> nat) \<Rightarrow> bool" where
  "writes_some accept = (\<forall>k n. 0 < n \<longrightarrow> 0 < accept k n \<and> accept k n \<le> n)"

lemma write_loop_all:
  assumes "writes_some accept"
  shows "t \<le> length content \<Longrightarrow> \<exists>ws. write_loop accept k t content = Some ws \<and> concat ws = drop t content"
proof (induction "length content - t" arbitrary: t k rule: less_induct)
  case less
  show ?case
  proof (cases "t = length content")
    case True
    then show ?thesis by (simp add: write_loop.simps)
  next
    case False
    let ?n = "accept k (length content - t)"
    have n: "0 < ?n" "?n \<le> length content - t"
      using assms False less.prems by (auto simp: writes_some_def)
    have "length content - (t + ?n) < length content - t" "t + ?n \<le> length content"
      using n False less.prems by auto
    from less.hyps [OF this] obtain ws where
        ws: "write_loop accept (Suc k) (t + ?n) content = Some ws" "concat ws = drop (t + ?n) content" by blast
    have "take ?n (drop t content) @ drop (t + ?n) content = drop t content"
      by (metis add.commute append_take_drop_id drop_drop)
    with ws False show ?thesis by (subst write_loop.simps) (simp add: Let_def)
  qed
qed

text \<open>
  A response of any kind is sent completely and in order, however small the pieces are that
  the socket takes: the loop ends, and the bytes handed over are the head and then the body.
\<close>

theorem dispatch_sends_all:
  assumes "writes_some accept"
  shows "\<exists>ws. dispatch accept res = Some ws \<and> concat ws = response_head res @ res_body res"
  using write_loop_all [OF assms, of 0 "res_body res" 0] by (auto simp: dispatch_def)

theorem dispatch_sends_all_witness:
  "\<exists>ws. dispatch (\<lambda>k n. 1) \<lparr>res_code = sc_ok, res_headers = [], res_body = ''png'', res_src_type = 2\<rparr> = Some ws \<and>
     concat ws = ''HTTP/1.1 200 OK'' @ crlf @ crlf @ ''png''"
  using dispatch_sends_all [of "\<lambda>k n. 1" "\<lparr>res_code = sc_ok, res_headers = [], res_body = ''png'', res_src_type = 2\<rparr>"]
  by (simp add: writes_some_def response_head_def format_end_def Suc_le_eq)

section \<open>A client reads the response back\<close>

text \<open>The reference client: status line, header lines up to an empty line, the rest is the body.\<close>

function read_headers :: "string \<Rightarrow> ((string \<times> string) list \<times> string) option" where
  "read_headers s =
     (let line = str_find crlf s in
      if line < 0 then None
      else let l = take (nat line) s; rest = drop (nat line + 2) s; colon = str_find '': '' l in
        if l = [] then Some ([], rest)
        else if colon < 0 then None
        else map_option (\<lambda>(hs, body). ((take (nat colon) l, drop (nat colon + 2) l) # hs, body)) (read_headers rest))"
  by pat_completeness auto
termination
proof (relation "measure length")
  fix s line l rest colon
  assume "line = str_find crlf s" "\<not> line < 0" "l = take (nat line) s" "rest = drop (nat line + 2) s" "l \<noteq> []"
  then show "(rest, s) \<in> measure length" by auto
qed simp

declare read_headers.simps [simp del]

definition read_response :: "string \<Rightarrow> (string \<times> (string \<times> string) list \<times> string) option" where
  "read_response s =
     (let line = str_find crlf s in
      if line < 0 then None
      else map_option (\<lambda>(hs, body). (take (nat line) s, hs, body)) (read_headers (drop (nat line + 2) s)))"

text \<open>A header that can be sent: a name without a colon or a line break, a value without a line break.\<close>

definition header_clean :: "string \<times> string \<Rightarrow> bool" where
  "header_clean h = (CHR '':'' \<notin> set (fst h) \<and> CR \<notin> set (fst h) \<and> CR \<notin> set (snd h))"

lemma no_CR_no_crlf: "CR \<notin> set s \<Longrightarrow> \<not> sublist crlf s"
  by (auto simp: sublist_def)

lemma read_headers_end: "read_headers (CR # LF # body) = Some ([], body)"
  using str_find_self [of crlf body] by (subst read_headers.simps) simp

lemma read_headers_line:
  assumes "header_clean (k, v)"
  shows "read_headers (format_header k v @ s) = map_option (\<lambda>(hs, body). ((k, v) # hs, body)) (read_headers s)"
proof -
  obtain l where l: "l = k @ CHR '':'' # SP # v" by simp
  have s: "format_header k v @ s = l @ CR # LF # s" by (simp add: format_header_def l)
  have "str_find crlf (l @ CR # LF # s) = int (length l)"
    using assms by (intro str_find_crlf no_CR_no_crlf) (auto simp: header_clean_def l)
  moreover have "str_find '': '' l = int (length k)"
    using assms str_find_append_hit [of "CHR '':''" k "[SP]" v] by (simp add: header_clean_def l)
  moreover have "l \<noteq> []" "take (length k) l = k" "drop (length k + 2) l = v" by (simp_all add: l)
  ultimately show ?thesis
    unfolding s by (subst read_headers.simps) (simp add: Let_def)
qed

lemma read_headers_all:
  "list_all header_clean hs \<Longrightarrow>
   read_headers (concat (map (\<lambda>(k, v). format_header k v) hs) @ CR # LF # body) = Some (hs, body)"
  by (induction hs) (auto simp: read_headers_end read_headers_line)

lemma status_line_shape:
  "\<exists>l. Dispatcher_ToString c = l @ crlf \<and> CR \<notin> set l"
  by (cases c) (auto intro!: exI [of _ "butlast (butlast (Dispatcher_ToString c))"])

lemma response_read:
  assumes "list_all header_clean (res_headers res)"
  shows "read_response (response_head res @ res_body res) =
    Some (butlast (butlast (Dispatcher_ToString (res_code res))), res_headers res, res_body res)"
proof -
  obtain l where l: "Dispatcher_ToString (res_code res) = l @ crlf" "CR \<notin> set l" using status_line_shape by blast
  let ?rest = "concat (map (\<lambda>(k, v). format_header k v) (res_headers res)) @ CR # LF # res_body res"
  have "str_find crlf (l @ CR # LF # ?rest) = int (length l)" using l(2) by (intro str_find_crlf no_CR_no_crlf)
  then show ?thesis
    using read_headers_all [OF assms, of "res_body res"]
    by (simp add: read_response_def response_head_def l(1) format_end_def Let_def butlast_append)
qed

text \<open>
  \<^bold>\<open>C17.\<close> What the dispatcher hands to the socket, piece by piece, is read back by a client as the
  response: the status line, the headers in the order of the map and the body, byte for byte, whatever
  the body contains and however small the pieces are that the socket takes.
\<close>

theorem client_reads_response:
  assumes "writes_some accept" "list_all header_clean (res_headers res)"
  shows "\<exists>ws. dispatch accept res = Some ws \<and> read_response (concat ws) =
    Some (butlast (butlast (Dispatcher_ToString (res_code res))), res_headers res, res_body res)"
  using dispatch_sends_all [OF assms(1), of res] response_read [OF assms(2)] by auto

theorem client_reads_response_witness:
  "\<exists>ws. dispatch (\<lambda>k n. 1) ((plain_text_response ''hi'' sc_not_found)\<lparr>res_src_type := 2\<rparr>) = Some ws \<and> read_response (concat ws) =
     Some (''HTTP/1.1 404 Not Found'',
       [(''Connection'', ''close''), (''Content-length'', ''2''), (''Content-type'', ''text/plain'')], ''hi'')"
proof -
  let ?r = "(plain_text_response ''hi'' sc_not_found)\<lparr>res_src_type := 2\<rparr>"
  have "to_string (Suc (Suc 0)) = ''2''" by code_simp
  moreover have "list_all header_clean (res_headers ?r)" by code_simp
  moreover have "writes_some (\<lambda>k n. 1)" by (simp add: writes_some_def Suc_le_eq)
  ultimately show ?thesis
    using client_reads_response [of "\<lambda>k n. 1" ?r] by (simp add: plain_text_response_def)
qed

text \<open>
  Every status code of the enumeration but one is sent under its own number: 504, the answer of
  the proxy when only a cached page is wanted and there is none, goes out as 500, as does every code
  that is no enumerator.
\<close>

theorem status_line_number:
  "take 12 (Dispatcher_ToString c) =
     ''HTTP/1.1 '' @ to_string (code_number (if c = sc_gateway_timeout then sc_internal_server_error
       else if c \<in> set known_codes then c else sc_internal_server_error))"
proof -
  have n: "to_string 500 = ''500''" "list_all (\<lambda>c. take 12 (Dispatcher_ToString c) = ''HTTP/1.1 '' @ to_string (code_number
      (if c = sc_gateway_timeout then sc_internal_server_error else c))) known_codes" by code_simp+
  show ?thesis
  proof (cases "c \<in> set known_codes")
    case True
    with n(2) show ?thesis by (auto simp: list_all_iff)
  next
    case False
    then show ?thesis using n(1) by (cases c) (auto simp: known_codes_def)
  qed
qed

end
