(* ===== verification/Request_Parser.thy ===== *)
theory Request_Parser
  imports Http_Types Boost_Lib
begin

text \<open>
  The incremental HTTP request parser of \<^verbatim>\<open>src/request_parser.cc\<close> (declared in
  \<^verbatim>\<open>include/request_parser.h\<close>): the parser object as a record, \<open>NextCharHandler\<close> as the
  transition function of its state machine, \<open>Parse\<close> as the loop that feeds it.

  The file-scope variable \<^verbatim>\<open>result\<close> is the field \<open>rp_result\<close>: the program has a single parser
  object (the global \<^verbatim>\<open>req_parser\<close> of \<^verbatim>\<open>src/session.cc\<close>), so the two have the same lifetime.
  An expression whose behaviour C++ leaves undefined (\<^verbatim>\<open>headers_.back()\<close> on an empty vector,
  \<^verbatim>\<open>path_[path_.size() - 1]\<close> on an empty string) is the fault \<open>Undefined_Behaviour\<close>.
\<close>

section \<open>The parser object\<close>

datatype Result = good | bad | undefined_result

datatype parser_state =
    st_method_start | st_method | st_uri
  | st_version_h | st_version_firstT | st_version_secondT | st_version_p | st_version_slash
  | st_version_major_start | st_version_major | st_version_minor_start | st_version_minor
  | st_newline_1 | st_header_start | st_header_lws | st_header_name
  | st_space_before_header_value | st_header_value | st_newline_2 | st_newline_3 | st_body

record request_parser =
  rp_state :: parser_state
  rp_remaining :: "64 word"
  rp_raw_request :: string
  rp_path :: string
  rp_version :: string
  rp_method :: string
  rp_uri :: string
  rp_headers :: "(string \<times> string) list"
  rp_body :: string
  rp_result :: Result

definition Reset :: "request_parser \<Rightarrow> request_parser" where
  "Reset p = p\<lparr>rp_raw_request := [], rp_method := [], rp_uri := [], rp_path := [],
     rp_version := [], rp_headers := [], rp_body := [], rp_state := st_method_start\<rparr>"

text \<open>The constructor; \<open>remaining\<close> is left with whatever the memory held.\<close>

definition new_parser :: "64 word \<Rightarrow> request_parser" where
  "new_parser junk = \<lparr>rp_state = st_method_start, rp_remaining = junk, rp_raw_request = [],
     rp_path = [], rp_version = [], rp_method = [], rp_uri = [], rp_headers = [],
     rp_body = [], rp_result = undefined_result\<rparr>"

definition GetParseResult :: "request_parser \<Rightarrow> Result" where
  "GetParseResult p = rp_result p"

text \<open>
  \<open>SetUri\<close> works with \<^verbatim>\<open>size_t\<close>: a missing blank is position 0 after the increment, and a missing
  second blank makes the length wrap to a value \<^verbatim>\<open>replace\<close> cuts at the end of the string.
\<close>

definition SetUri :: "string \<Rightarrow> request_parser \<Rightarrow> request_parser outcome" where
  "SetUri uri p =
     (let raw = rp_raw_request p;
          uri_pos = str_find [SP] raw + 1;
          rest = drop (nat uri_pos) raw;
          uri_len = (if str_find [SP] rest < 0 then length rest else nat (str_find [SP] rest))
      in bind_out (str_replace raw uri_pos uri_len uri)
           (\<lambda>raw'. Inr (p\<lparr>rp_uri := uri, rp_raw_request := raw'\<rparr>)))"

fun get_header_value :: "(string \<times> string) list \<Rightarrow> string \<Rightarrow> string" where
  "get_header_value [] name = []"
| "get_header_value ((k, v) # hs) name = (if k = name then v else get_header_value hs name)"

definition GetHeaderValue :: "request_parser \<Rightarrow> string \<Rightarrow> string" where
  "GetHeaderValue p name = get_header_value (rp_headers p) name"

section \<open>Character classes\<close>

definition is_char :: "int \<Rightarrow> bool" where
  "is_char c = (c \<ge> 0 \<and> c \<le> 127)"

definition is_control_char :: "int \<Rightarrow> bool" where
  "is_control_char c = (c \<ge> 0 \<and> c \<le> 31 \<or> c = 127)"

definition is_special_char :: "int \<Rightarrow> bool" where
  "is_special_char c =
     (c \<in> int_of_char ` set (''()<>@,;:'' @ [CHR 0x5C, QUOTE] @ ''/[]?={}'' @ [SP, TAB]))"

definition is_digit :: "int \<Rightarrow> bool" where
  "is_digit c = (c \<ge> int_of_char (CHR ''0'') \<and> c \<le> int_of_char (CHR ''9''))"

text \<open>The test that opens four states of the machine.\<close>

definition not_token :: "char \<Rightarrow> bool" where
  "not_token c =
     (\<not> is_char (int_of_char c) \<or> is_control_char (int_of_char c) \<or> is_special_char (int_of_char c))"

section \<open>The path of a URI\<close>

text \<open>
  The loop over \<open>uri_\<close> in state \<^verbatim>\<open>_uri\<close>: \<^const>\<open>None\<close> is the early return on a malformed escape,
  which empties the path.
\<close>

function decode_path :: "string \<Rightarrow> string \<Rightarrow> string option" where
  "decode_path [] path = Some path"
| "decode_path (c # cs) path =
     (if c = CHR ''%'' then
        if 2 \<le> length cs then
          (case read_hex (take 2 cs) of
             Some v \<Rightarrow> decode_path (drop 2 cs) (path @ [char_of_int v])
           | None \<Rightarrow> None)
        else None
      else if c = CHR ''+'' then decode_path cs (path @ [SP])
      else decode_path cs (path @ [c]))"
  by pat_completeness auto
termination
  by (relation "measure (\<lambda>(s, _). length s)") auto

definition infer_path :: "string \<Rightarrow> string \<Rightarrow> string outcome" where
  "infer_path uri path0 =
     (case decode_path uri path0 of
        None \<Rightarrow> Inr []
      | Some path \<Rightarrow>
          if str_find ''..'' path \<noteq> -1 then Inr []
          else bind_out (char_at path (int (length path) - 1))
                 (\<lambda>c. Inr (if c = CHR ''/'' then path @ ''index.html'' else path)))"

section \<open>The transition function\<close>

text \<open>\<^verbatim>\<open>headers_.back().first.push_back(c)\<close> and \<^verbatim>\<open>headers_.back().second.push_back(c)\<close>.\<close>

definition push_name :: "char \<Rightarrow> request_parser \<Rightarrow> request_parser outcome" where
  "push_name c p =
     (if rp_headers p = [] then Inl Undefined_Behaviour
      else let (k, v) = last (rp_headers p)
           in Inr (p\<lparr>rp_headers := butlast (rp_headers p) @ [(k @ [c], v)]\<rparr>))"

definition push_value :: "char \<Rightarrow> request_parser \<Rightarrow> request_parser outcome" where
  "push_value c p =
     (if rp_headers p = [] then Inl Undefined_Behaviour
      else let (k, v) = last (rp_headers p)
           in Inr (p\<lparr>rp_headers := butlast (rp_headers p) @ [(k, v @ [c])]\<rparr>))"

text \<open>\<^verbatim>\<open>return undefined\<close> after moving to a state, and the states of the literal \<^verbatim>\<open>HTTP/\<close>.\<close>

definition goto :: "parser_state \<Rightarrow> request_parser \<Rightarrow> (Result \<times> request_parser) outcome" where
  "goto st p = Inr (undefined_result, p\<lparr>rp_state := st\<rparr>)"

definition push_version :: "char \<Rightarrow> request_parser \<Rightarrow> request_parser" where
  "push_version c p = p\<lparr>rp_version := rp_version p @ [c]\<rparr>"

definition expect :: "char \<Rightarrow> parser_state \<Rightarrow> char \<Rightarrow> request_parser \<Rightarrow>
    (Result \<times> request_parser) outcome" where
  "expect lit_c st c p = (if c = lit_c then goto st (push_version lit_c p) else Inr (bad, p))"

text \<open>The cases of the switch from \<^verbatim>\<open>_header_start\<close> on, with its default.\<close>

definition header_char :: "char \<Rightarrow> request_parser \<Rightarrow> (Result \<times> request_parser) outcome" where
  "header_char c p =
     (case rp_state p of
        st_header_start \<Rightarrow>
          if c = CR then goto st_newline_3 p
          else if rp_headers p \<noteq> [] \<and> (c = SP \<or> c = TAB) then goto st_header_lws p
          else if not_token c then Inr (bad, p)
          else bind_out (push_name c (p\<lparr>rp_headers := rp_headers p @ [([], [])]\<rparr>))
                 (goto st_header_name)
      | st_header_lws \<Rightarrow>
          if c = CR then goto st_newline_2 p
          else if c = SP \<or> c = TAB then Inr (undefined_result, p)
          else if is_control_char (int_of_char c) then Inr (bad, p)
          else bind_out (push_value c p) (goto st_header_value)
      | st_header_name \<Rightarrow>
          if c = CHR '':'' then goto st_space_before_header_value p
          else if not_token c then Inr (bad, p)
          else bind_out (push_name c p) (\<lambda>p. Inr (undefined_result, p))
      | st_space_before_header_value \<Rightarrow> if c = SP then goto st_header_value p else Inr (bad, p)
      | st_header_value \<Rightarrow>
          if c = CR then goto st_newline_2 p
          else if is_control_char (int_of_char c) then Inr (bad, p)
          else bind_out (push_value c p) (\<lambda>p. Inr (undefined_result, p))
      | st_newline_2 \<Rightarrow> if c = LF then goto st_header_start p else Inr (bad, p)
      | st_newline_3 \<Rightarrow>
          if c = LF then
            (case stoull (GetHeaderValue p ''Content-Length'') of
               Inl _ \<Rightarrow> Inr (good, p)
             | Inr n \<Rightarrow>
                 if n > 0 then goto st_body (p\<lparr>rp_remaining := n\<rparr>)
                 else Inr (good, p\<lparr>rp_remaining := n\<rparr>))
          else Inr (bad, p)
      | st_body \<Rightarrow>
          let p' = p\<lparr>rp_body := rp_body p @ [c], rp_remaining := rp_remaining p - 1\<rparr>
          in if rp_remaining p' > 0 then Inr (undefined_result, p') else Inr (good, p')
      | _ \<Rightarrow> Inr (bad, p))"

text \<open>The cases of the version and the end of the request line.\<close>

definition version_char :: "char \<Rightarrow> request_parser \<Rightarrow> (Result \<times> request_parser) outcome" where
  "version_char c p =
     (case rp_state p of
        st_version_h \<Rightarrow> expect (CHR ''H'') st_version_firstT c p
      | st_version_firstT \<Rightarrow> expect (CHR ''T'') st_version_secondT c p
      | st_version_secondT \<Rightarrow> expect (CHR ''T'') st_version_p c p
      | st_version_p \<Rightarrow> expect (CHR ''P'') st_version_slash c p
      | st_version_slash \<Rightarrow> expect (CHR ''/'') st_version_major_start c p
      | st_version_major_start \<Rightarrow>
          if is_digit (int_of_char c) then goto st_version_major (push_version c p)
          else Inr (bad, p)
      | st_version_major \<Rightarrow>
          if c = CHR ''.'' then goto st_version_minor_start (push_version c p)
          else if is_digit (int_of_char c) then Inr (undefined_result, push_version c p)
          else Inr (bad, p)
      | st_version_minor_start \<Rightarrow>
          if is_digit (int_of_char c) then goto st_version_minor (push_version c p)
          else Inr (bad, p)
      | st_version_minor \<Rightarrow>
          if c = CR then goto st_newline_1 p
          else if is_digit (int_of_char c) then Inr (undefined_result, push_version c p)
          else Inr (bad, p)
      | st_newline_1 \<Rightarrow> if c = LF then goto st_header_start p else Inr (bad, p)
      | _ \<Rightarrow> header_char c p)"

definition handle_char :: "char \<Rightarrow> request_parser \<Rightarrow> (Result \<times> request_parser) outcome" where
  "handle_char c p =
     (case rp_state p of
        st_method_start \<Rightarrow>
          if not_token c then Inr (bad, p)
          else goto st_method (p\<lparr>rp_method := rp_method p @ [c]\<rparr>)
      | st_method \<Rightarrow>
          if c = SP then goto st_uri p
          else if not_token c then Inr (bad, p)
          else Inr (undefined_result, p\<lparr>rp_method := rp_method p @ [c]\<rparr>)
      | st_uri \<Rightarrow>
          if c = SP then
            bind_out (infer_path (rp_uri p) (rp_path p))
              (\<lambda>path. goto st_version_h (p\<lparr>rp_path := path\<rparr>))
          else if is_control_char (int_of_char c) then Inr (bad, p)
          else Inr (undefined_result, p\<lparr>rp_uri := rp_uri p @ [c]\<rparr>)
      | _ \<Rightarrow> version_char c p)"

definition NextCharHandler :: "char \<Rightarrow> request_parser \<Rightarrow> (Result \<times> request_parser) outcome" where
  "NextCharHandler c p = handle_char c (p\<lparr>rp_raw_request := rp_raw_request p @ [c]\<rparr>)"

section \<open>Parsing\<close>

definition getMethod :: "boost_lib \<Rightarrow> request_parser \<Rightarrow> Method" where
  "getMethod B p =
     (let m = to_upper_copy B (rp_method p)
      in if m = ''GET'' then GET
         else if m = ''POST'' then POST
         else if m = ''PUT'' then PUT
         else if m = ''DELETE'' then DELETE
         else if m = ''HEAD'' then HEAD
         else if m = ''CONNECT'' then CONNECT
         else if m = ''OPTIONS'' then OPTIONS
         else if m = ''TRACE'' then TRACE
         else PATCH)"

definition getHeaderMap :: "request_parser \<Rightarrow> string smap" where
  "getHeaderMap p = smap_of_pairs (rp_headers p)"

text \<open>What \<open>Parse\<close> writes into the request once the outcome is decided.\<close>

definition write_request :: "boost_lib \<Rightarrow> request_parser \<Rightarrow> request \<Rightarrow> request" where
  "write_request B p req = req\<lparr>req_method := getMethod B p, req_uri := rp_uri p,
     req_version := rp_version p, req_headers := getHeaderMap p, req_body := rp_body p\<rparr>"

fun parse_loop :: "boost_lib \<Rightarrow> request \<Rightarrow> request_parser \<Rightarrow> string \<Rightarrow>
    (Result \<times> string \<times> request \<times> request_parser) outcome" where
  "parse_loop B req p [] = Inr (rp_result p, [], req, p)"
| "parse_loop B req p (c # cs) =
     bind_out (NextCharHandler c p) (\<lambda>(r, p').
       let p'' = p'\<lparr>rp_result := r\<rparr>
       in if r = good \<or> r = bad then Inr (r, cs, write_request B p'' req, Reset p'')
          else parse_loop B req p'' cs)"

text \<open>
  \<open>Parse\<close> returns the result and what is left of the input, with the request and the parser as
  they are afterwards.
\<close>

definition Parse :: "boost_lib \<Rightarrow> request \<Rightarrow> request_parser \<Rightarrow> string \<Rightarrow>
    (Result \<times> string \<times> request \<times> request_parser) outcome" where
  "Parse B req p s = parse_loop B req (p\<lparr>rp_result := undefined_result\<rparr>) s"

text \<open>\<^verbatim>\<open>RequestParser::reset(Request&)\<close>\<close>

definition reset_request :: "request \<Rightarrow> request" where
  "reset_request req = req\<lparr>req_method := GET, req_uri := [], req_headers := [],
     req_body := [], req_version := []\<rparr>"

section \<open>The parser as a character-driven machine\<close>

text \<open>
  One iteration of \<open>Parse\<close>: go on with the parser in its new state, or stop with a fault or with
  a decided result.
\<close>

definition rp_step :: "char \<Rightarrow> request_parser \<Rightarrow> request_parser + (Result \<times> request_parser) outcome" where
  "rp_step c p =
     (case NextCharHandler c p of
        Inl e \<Rightarrow> Inr (Inl e)
      | Inr (r, p') \<Rightarrow>
          if r = good \<or> r = bad then Inr (Inr (r, p'\<lparr>rp_result := r\<rparr>)) else Inl (p'\<lparr>rp_result := r\<rparr>))"

fun rp_run :: "request_parser \<Rightarrow> string \<Rightarrow>
    request_parser + ((Result \<times> request_parser) outcome \<times> string)" where
  "rp_run p [] = Inl p"
| "rp_run p (c # cs) =
     (case rp_step c p of Inl p' \<Rightarrow> rp_run p' cs | Inr out \<Rightarrow> Inr (out, cs))"

interpretation rpm: char_machine rp_step rp_run
  by unfold_locales simp_all

lemma parse_loop_run:
  "parse_loop B req p s =
     (case rp_run p s of
        Inl p' \<Rightarrow> Inr (rp_result p', [], req, p')
      | Inr (Inl e, _) \<Rightarrow> Inl e
      | Inr (Inr (r, p'), rest) \<Rightarrow> Inr (r, rest, write_request B p' req, Reset p'))"
  by (induction B req p s rule: parse_loop.induct)
    (auto simp: rp_step_def bind_out_def Let_def split: sum.splits prod.splits)

definition fresh :: "request_parser \<Rightarrow> bool" where
  "fresh p = (rp_state p = st_method_start \<and> rp_raw_request p = [] \<and> rp_method p = [] \<and>
     rp_uri p = [] \<and> rp_path p = [] \<and> rp_version p = [] \<and> rp_headers p = [] \<and> rp_body p = [])"

lemma fresh_Reset [simp]: "fresh (Reset p)"
  by (simp add: fresh_def Reset_def)

lemma fresh_new [simp]: "fresh (new_parser junk)"
  by (simp add: fresh_def new_parser_def)

lemma fresh_result [simp]: "fresh (p\<lparr>rp_result := r\<rparr>) = fresh p"
  by (simp add: fresh_def)

subsection \<open>Feeding the input in pieces\<close>

lemma rp_step_undecided: "rp_step c p = Inl p' \<Longrightarrow> rp_result p' = undefined_result"
  by (auto simp: rp_step_def split: sum.splits prod.splits if_splits) (use Result.exhaust in blast)

lemma rp_run_undecided:
  "rp_result p = undefined_result \<Longrightarrow> rp_run p s = Inl p' \<Longrightarrow> rp_result p' = undefined_result"
  using rpm.run_invariant [where I = "\<lambda>p. rp_result p = undefined_result"] rp_step_undecided by blast

lemma rp_run_decided:
  assumes "rp_run p s = Inr (Inr (r, p'), rest)"
  shows "r = good \<or> r = bad" "rp_result p' = r"
proof -
  obtain c q where "rp_step c q = Inr (Inr (r, p'))" by (rule rpm.run_stops [OF assms])
  then show "r = good \<or> r = bad" "rp_result p' = r"
    by (auto simp: rp_step_def split: sum.splits prod.splits if_splits)
qed

lemma Parse_undecided:
  assumes "rp_run (p\<lparr>rp_result := undefined_result\<rparr>) xs = Inl q"
  shows "Parse B req p xs = Inr (undefined_result, [], req, q)" "Parse B req p (xs @ ys) = Parse B req q ys"
proof -
  have r: "rp_result q = undefined_result" using assms by (rule rp_run_undecided [rotated]) simp
  then have q: "q\<lparr>rp_result := undefined_result\<rparr> = q" by simp
  show "Parse B req p xs = Inr (undefined_result, [], req, q)" "Parse B req p (xs @ ys) = Parse B req q ys"
    using assms r by (simp_all add: Parse_def parse_loop_run rpm.run_append q del: parse_loop.simps)
qed

text \<open>
  \<^bold>\<open>C20.\<close> A request that arrives in two pieces is parsed as if it had arrived at once: when the
  first piece leaves the parser undecided, parsing the second piece from there gives the result
  for the whole; when the first piece decides, the rest of the input is left untouched.
\<close>

theorem Parse_in_pieces:
  "Parse B req p (xs @ ys) =
     bind_out (Parse B req p xs) (\<lambda>(r, rest, req', p').
       if r = undefined_result then Parse B req' p' ys else Inr (r, rest @ ys, req', p'))"
proof (cases "rp_run (p\<lparr>rp_result := undefined_result\<rparr>) xs")
  case (Inl q)
  from Parse_undecided [OF this] show ?thesis by simp
next
  case (Inr out)
  obtain m rest where out: "out = (m, rest)" by (cases out)
  show ?thesis
  proof (cases m)
    case (Inl e)
    with Inr out show ?thesis by (simp add: Parse_def parse_loop_run rpm.run_append)
  next
    case m: (Inr rq)
    obtain r q where rq: "rq = (r, q)" by (cases rq)
    with Inr out m have "r = good \<or> r = bad" using rp_run_decided(1) by blast
    with Inr out m rq show ?thesis
      by (auto simp: Parse_def parse_loop_run rpm.run_append)
  qed
qed

section \<open>Parsing inverts rendering\<close>

text \<open>The text of a request as a client writes it.\<close>

definition header_text :: "string \<times> string \<Rightarrow> string" where
  "header_text h = fst h @ '': '' @ snd h @ crlf"

definition request_text :: "string \<Rightarrow> string \<Rightarrow> string \<Rightarrow> (string \<times> string) list \<Rightarrow> string \<Rightarrow> string" where
  "request_text meth uri version hs body =
     meth @ [SP] @ uri @ [SP] @ version @ crlf @ concat (map header_text hs) @ crlf @ body"

definition token :: "string \<Rightarrow> bool" where
  "token s = (s \<noteq> [] \<and> (\<forall>c \<in> set s. \<not> not_token c))"

definition no_control :: "string \<Rightarrow> bool" where
  "no_control s = (\<forall>c \<in> set s. \<not> is_control_char (int_of_char c))"

definition digits :: "string \<Rightarrow> bool" where
  "digits s = (s \<noteq> [] \<and> (\<forall>c \<in> set s. is_digit (int_of_char c)))"

definition version_text :: "string \<Rightarrow> string \<Rightarrow> string" where
  "version_text major minor = ''HTTP/'' @ major @ ''.'' @ minor"

definition headers_ok :: "(string \<times> string) list \<Rightarrow> bool" where
  "headers_ok hs = (\<forall>(k, v) \<in> set hs. token k \<and> no_control v)"

text \<open>The body has the length the headers announce; without a usable announcement it is empty.\<close>

definition body_ok :: "(string \<times> string) list \<Rightarrow> string \<Rightarrow> bool" where
  "body_ok hs body =
     (case stoull (get_header_value hs ''Content-Length'') of
        Inl _ \<Rightarrow> body = [] | Inr n \<Rightarrow> length body = unat n)"

fun method_name :: "Method \<Rightarrow> string" where
  "method_name GET = ''GET''"
| "method_name POST = ''POST''"
| "method_name PUT = ''PUT''"
| "method_name DELETE = ''DELETE''"
| "method_name HEAD = ''HEAD''"
| "method_name CONNECT = ''CONNECT''"
| "method_name OPTIONS = ''OPTIONS''"
| "method_name TRACE = ''TRACE''"
| "method_name PATCH = ''PATCH''"

lemmas rp_step_defs = rp_step_def NextCharHandler_def handle_char_def version_char_def header_char_def goto_def expect_def
  push_version_def push_name_def push_value_def

lemma not_token_delims [simp]:
  "not_token SP" "not_token TAB" "not_token CR" "not_token LF" "not_token (CHR '':'')"
  by (simp_all add: not_token_def is_char_def is_control_char_def is_special_char_def int_of_char_def)

lemma control_delims [simp]:
  "is_control_char (int_of_char CR)" "is_control_char (int_of_char LF)"
  "\<not> is_control_char (int_of_char SP)"
  by (simp_all add: is_control_char_def int_of_char_def)

lemma not_digit_delims [simp]:
  "\<not> is_digit (int_of_char CR)" "\<not> is_digit (int_of_char (CHR ''.''))"
  by (simp_all add: is_digit_def int_of_char_def)

lemma token_char_delims:
  assumes "\<not> not_token c"
  shows "c \<noteq> SP" "c \<noteq> TAB" "c \<noteq> CR" "c \<noteq> LF" "c \<noteq> CHR '':''"
  using assms by auto

subsection \<open>The segments of a request\<close>

lemma run_method:
  "rp_state p = st_method \<Longrightarrow> rp_result p = undefined_result \<Longrightarrow> \<forall>c \<in> set m. \<not> not_token c \<Longrightarrow>
   rp_run p m = Inl (p\<lparr>rp_raw_request := rp_raw_request p @ m, rp_method := rp_method p @ m\<rparr>)"
  by (induction m arbitrary: p) (auto simp: rp_step_defs)

lemma run_uri:
  "rp_state p = st_uri \<Longrightarrow> rp_result p = undefined_result \<Longrightarrow> SP \<notin> set u \<Longrightarrow> no_control u \<Longrightarrow>
   rp_run p u = Inl (p\<lparr>rp_raw_request := rp_raw_request p @ u, rp_uri := rp_uri p @ u\<rparr>)"
  by (induction u arbitrary: p) (auto simp: rp_step_defs no_control_def)

lemma run_version_major:
  "rp_state p = st_version_major \<Longrightarrow> rp_result p = undefined_result \<Longrightarrow>
   \<forall>c \<in> set ds. is_digit (int_of_char c) \<Longrightarrow>
   rp_run p ds = Inl (p\<lparr>rp_raw_request := rp_raw_request p @ ds, rp_version := rp_version p @ ds\<rparr>)"
  by (induction ds arbitrary: p) (auto simp: rp_step_defs)

lemma run_version_minor:
  "rp_state p = st_version_minor \<Longrightarrow> rp_result p = undefined_result \<Longrightarrow>
   \<forall>c \<in> set ds. is_digit (int_of_char c) \<Longrightarrow>
   rp_run p ds = Inl (p\<lparr>rp_raw_request := rp_raw_request p @ ds, rp_version := rp_version p @ ds\<rparr>)"
  by (induction ds arbitrary: p) (auto simp: rp_step_defs)

lemma run_header_name:
  "rp_state p = st_header_name \<Longrightarrow> rp_result p = undefined_result \<Longrightarrow>
   rp_headers p = hs @ [(k, v)] \<Longrightarrow> \<forall>c \<in> set k'. \<not> not_token c \<Longrightarrow>
   rp_run p k' = Inl (p\<lparr>rp_raw_request := rp_raw_request p @ k', rp_headers := hs @ [(k @ k', v)]\<rparr>)"
  by (induction k' arbitrary: p k) (auto simp: rp_step_defs)

lemma run_header_value:
  "rp_state p = st_header_value \<Longrightarrow> rp_result p = undefined_result \<Longrightarrow>
   rp_headers p = hs @ [(k, v)] \<Longrightarrow> no_control v' \<Longrightarrow>
   rp_run p v' = Inl (p\<lparr>rp_raw_request := rp_raw_request p @ v', rp_headers := hs @ [(k, v @ v')]\<rparr>)"
  by (induction v' arbitrary: p v) (auto simp: rp_step_defs no_control_def)

lemma run_header:
  assumes "rp_state p = st_header_start" "rp_result p = undefined_result" "token (fst h)" "no_control (snd h)"
  shows "rp_run p (header_text h) =
    Inl (p\<lparr>rp_raw_request := rp_raw_request p @ header_text h, rp_headers := rp_headers p @ [h]\<rparr>)"
proof -
  obtain c k v where h: "h = (c # k, v)" and c: "\<not> not_token c" and k: "\<forall>x \<in> set k. \<not> not_token x"
    using assms(3) by (cases h; cases "fst h") (auto simp: token_def)
  let ?p1 = "p\<lparr>rp_state := st_header_name, rp_raw_request := rp_raw_request p @ [c],
      rp_headers := rp_headers p @ [([c], [])]\<rparr>"
  let ?p2 = "?p1\<lparr>rp_raw_request := rp_raw_request p @ c # k, rp_headers := rp_headers p @ [(c # k, [])]\<rparr>"
  let ?p3 = "?p2\<lparr>rp_state := st_header_value, rp_raw_request := rp_raw_request p @ c # k @ '': ''\<rparr>"
  let ?p4 = "?p3\<lparr>rp_raw_request := rp_raw_request p @ c # k @ '': '' @ v, rp_headers := rp_headers p @ [h]\<rparr>"
  have 1: "rp_run p [c] = Inl ?p1"
    using assms(1,2) c token_char_delims [OF c] by (simp add: rp_step_defs)
  have 2: "rp_run ?p1 k = Inl ?p2"
    using run_header_name [of ?p1 "rp_headers p" "[c]" "[]" k] assms(2) k by simp
  have 3: "rp_run ?p2 '': '' = Inl ?p3"
    using assms(2) by (simp add: rp_step_defs)
  have 4: "rp_run ?p3 v = Inl ?p4"
    using run_header_value [of ?p3 "rp_headers p" "c # k" "[]" v] assms(2,4) h by simp
  have 5: "rp_run ?p4 crlf = Inl (p\<lparr>rp_raw_request := rp_raw_request p @ header_text h,
      rp_headers := rp_headers p @ [h]\<rparr>)"
    using assms(1,2) h by (simp add: rp_step_defs header_text_def)
  have "header_text h = [c] @ k @ '': '' @ v @ crlf"
    by (simp add: h header_text_def)
  then show ?thesis
    using rpm.run_on [OF 1] rpm.run_on [OF 2] rpm.run_on [OF 3] rpm.run_on [OF 4] 5 by simp
qed

lemma run_headers:
  assumes "rp_state p = st_header_start" "rp_result p = undefined_result" "headers_ok hs"
  shows "rp_run p (concat (map header_text hs)) =
    Inl (p\<lparr>rp_raw_request := rp_raw_request p @ concat (map header_text hs), rp_headers := rp_headers p @ hs\<rparr>)"
  using assms
proof (induction hs arbitrary: p)
  case (Cons h hs)
  let ?q = "p\<lparr>rp_raw_request := rp_raw_request p @ header_text h, rp_headers := rp_headers p @ [h]\<rparr>"
  have "rp_run p (header_text h) = Inl ?q"
    using Cons.prems by (intro run_header) (auto simp: headers_ok_def)
  moreover have "rp_run ?q (concat (map header_text hs)) = Inl (p\<lparr>rp_raw_request :=
      rp_raw_request p @ concat (map header_text (h # hs)), rp_headers := rp_headers p @ h # hs\<rparr>)"
    using Cons by (simp add: headers_ok_def)
  ultimately show ?case by (simp add: rpm.run_append)
qed simp

lemma run_body:
  "rp_state p = st_body \<Longrightarrow> unat (rp_remaining p) = length b \<Longrightarrow> b \<noteq> [] \<Longrightarrow>
   rp_run p (b @ rest) = Inr (Inr (good, p\<lparr>rp_raw_request := rp_raw_request p @ b,
     rp_body := rp_body p @ b, rp_remaining := 0, rp_result := good\<rparr>), rest)"
proof (induction b arbitrary: p)
  case (Cons c b)
  have u: "unat (rp_remaining p - 1) = length b"
    using Cons.prems(2) by (metis diff_Suc_1 length_Cons unat_minus_one unat_0 nat.distinct(1))
  show ?case
  proof (cases "b = []")
    case True
    with u have "rp_remaining p - 1 = 0" by (simp add: unat_eq_0)
    with True Cons.prems(1) show ?thesis by (simp add: rp_step_defs Let_def)
  next
    case False
    with u have "rp_remaining p - 1 > 0" by (metis length_0_conv unat_0 word_neq_0_conv)
    with False Cons u show ?thesis by (simp add: rp_step_defs Let_def)
  qed
qed simp

subsection \<open>The request line\<close>

lemma decode_path_nonempty: "decode_path s path = Some path' \<Longrightarrow> s \<noteq> [] \<or> path \<noteq> [] \<Longrightarrow> path' \<noteq> []"
  by (induction s path rule: decode_path.induct) (auto split: if_splits option.splits)

lemma infer_path_completes: "uri \<noteq> [] \<Longrightarrow> \<exists>path. infer_path uri path0 = Inr path"
  using decode_path_nonempty [of uri path0]
  by (auto simp: infer_path_def char_at_def split: option.splits)

lemma run_request_line:
  assumes "fresh p" "rp_result p = undefined_result" "token meth" "uri \<noteq> []" "SP \<notin> set uri" "no_control uri"
    "digits major" "digits minor"
  obtains q where
    "rp_run p (meth @ [SP] @ uri @ [SP] @ version_text major minor @ crlf) = Inl q"
    "rp_state q = st_header_start" "rp_result q = undefined_result" "rp_method q = meth" "rp_uri q = uri"
    "rp_version q = version_text major minor" "rp_headers q = []" "rp_body q = []"
proof -
  obtain m ms where meth: "meth = m # ms" "\<not> not_token m" "\<forall>x \<in> set ms. \<not> not_token x"
    using assms(3) by (cases meth) (auto simp: token_def)
  obtain a ds where major: "major = a # ds" "is_digit (int_of_char a)" "\<forall>x \<in> set ds. is_digit (int_of_char x)"
    using assms(7) by (cases major) (auto simp: digits_def)
  obtain b bs where minor: "minor = b # bs" "is_digit (int_of_char b)" "\<forall>x \<in> set bs. is_digit (int_of_char x)"
    using assms(8) by (cases minor) (auto simp: digits_def)
  obtain path where path: "infer_path uri [] = Inr path"
    using infer_path_completes [OF assms(4)] by blast
  let ?p1 = "p\<lparr>rp_state := st_method, rp_raw_request := [m], rp_method := [m]\<rparr>"
  let ?p2 = "p\<lparr>rp_state := st_uri, rp_raw_request := meth @ [SP], rp_method := meth\<rparr>"
  let ?p3 = "?p2\<lparr>rp_raw_request := meth @ [SP] @ uri, rp_uri := uri\<rparr>"
  let ?p4 = "?p3\<lparr>rp_state := st_version_major, rp_raw_request := meth @ [SP] @ uri @ [SP] @ ''HTTP/'' @ [a],
      rp_path := path, rp_version := ''HTTP/'' @ [a]\<rparr>"
  let ?p5 = "?p4\<lparr>rp_state := st_version_minor, rp_raw_request := meth @ [SP] @ uri @ [SP] @ ''HTTP/'' @ major @ ''.'' @ [b],
      rp_version := ''HTTP/'' @ major @ ''.'' @ [b]\<rparr>"
  let ?q = "?p5\<lparr>rp_state := st_header_start, rp_version := version_text major minor,
      rp_raw_request := meth @ [SP] @ uri @ [SP] @ version_text major minor @ crlf\<rparr>"
  have 1: "rp_run p [m] = Inl ?p1"
    using assms(1,2) meth by (simp add: fresh_def rp_step_defs)
  have 2: "rp_run ?p1 (ms @ [SP]) = Inl ?p2"
    using run_method [of ?p1 ms] assms(2) meth by (simp add: rpm.run_append) (simp add: rp_step_defs)
  have 3: "rp_run ?p2 uri = Inl ?p3"
    using run_uri [of ?p2 uri] assms(1,2,5,6) by (simp add: fresh_def)
  have 4: "rp_run ?p3 ([SP] @ ''HTTP/'' @ [a]) = Inl ?p4"
    using assms(1,2) path major by (simp add: fresh_def rp_step_defs)
  have 5: "rp_run ?p4 (ds @ ''.'' @ [b]) = Inl ?p5"
    using run_version_major [of ?p4 ds] assms(2) major minor
    by (simp add: rpm.run_append) (simp add: rp_step_defs)
  have 6: "rp_run ?p5 (bs @ crlf) = Inl ?q"
    using run_version_minor [of ?p5 bs] assms(2) minor
    by (simp add: rpm.run_append) (simp add: rp_step_defs version_text_def)
  have txt_eq: "meth @ [SP] @ uri @ [SP] @ version_text major minor @ crlf =
      [m] @ (ms @ [SP]) @ uri @ ([SP] @ ''HTTP/'' @ [a]) @ (ds @ ''.'' @ [b]) @ (bs @ crlf)"
    by (simp add: meth major minor version_text_def)
  have "rp_run p (meth @ [SP] @ uri @ [SP] @ version_text major minor @ crlf) = Inl ?q"
    by (simp only: txt_eq rpm.run_on [OF 1] rpm.run_on [OF 2] rpm.run_on [OF 3] rpm.run_on [OF 4]
      rpm.run_on [OF 5] 6)
  then show thesis by (rule that) (use assms(1,2) in \<open>simp_all add: fresh_def\<close>)
qed

text \<open>A method name alone leaves the parser undecided.\<close>

lemma run_token:
  assumes "fresh p" "rp_result p = undefined_result" "token w"
  shows "\<exists>q. rp_run p w = Inl q"
proof -
  obtain c cs where w: "w = c # cs" using assms(3) by (cases w) (auto simp: token_def)
  have "\<exists>q. rp_run p [c] = Inl q \<and> rp_state q = st_method \<and> rp_result q = undefined_result"
    using assms w by (simp add: fresh_def token_def rp_step_defs)
  then obtain q where q: "rp_run p [c] = Inl q" "rp_state q = st_method" "rp_result q = undefined_result" by blast
  have "\<exists>q'. rp_run q cs = Inl q'" using run_method [of q cs] q assms(3) w by (auto simp: token_def)
  then show ?thesis using rpm.run_on [OF q(1), of cs] by (simp add: w)
qed

subsection \<open>The round trip\<close>

lemma getMethod_name:
  assumes "boost B" "map toupper (rp_method p) = method_name m"
  shows "getMethod B p = m"
  using assms by (cases m) (simp_all add: getMethod_def boost.to_upper_doc)

lemma run_end_of_headers:
  assumes "rp_state p = st_header_start" "rp_result p = undefined_result" "rp_body p = []" "body_ok (rp_headers p) body"
  shows "\<exists>q. rp_run p (crlf @ body @ rest) = Inr (Inr (good, q), rest) \<and> rp_method q = rp_method p \<and>
    rp_uri q = rp_uri p \<and> rp_version q = rp_version p \<and> rp_headers q = rp_headers p \<and> rp_body q = body"
proof (cases "stoull (get_header_value (rp_headers p) ''Content-Length'')")
  case (Inl e)
  with assms show ?thesis by (simp add: rp_step_defs GetHeaderValue_def body_ok_def)
next
  case (Inr n)
  let ?q = "p\<lparr>rp_state := st_body, rp_raw_request := rp_raw_request p @ crlf, rp_remaining := n\<rparr>"
  show ?thesis
  proof (cases "n = 0")
    case True
    with Inr assms show ?thesis by (simp add: rp_step_defs GetHeaderValue_def body_ok_def)
  next
    case False
    have len: "unat n = length body" using Inr assms(4) by (simp add: body_ok_def)
    with False have "body \<noteq> []" using unat_eq_0 by fastforce
    then have "rp_run ?q (body @ rest) = Inr (Inr (good, ?q\<lparr>rp_raw_request := rp_raw_request ?q @ body,
        rp_body := body, rp_remaining := 0, rp_result := good\<rparr>), rest)"
      using run_body [of ?q body rest] len assms(3) by simp
    moreover have "rp_run p crlf = Inl ?q"
      using False Inr assms by (simp add: rp_step_defs GetHeaderValue_def word_neq_0_conv)
    ultimately have "rp_run p (crlf @ body @ rest) = Inr (Inr (good, ?q\<lparr>rp_raw_request :=
        rp_raw_request ?q @ body, rp_body := body, rp_remaining := 0, rp_result := good\<rparr>), rest)"
      by (simp only: rpm.run_on)
    then show ?thesis by (intro exI conjI) (assumption, simp_all)
  qed
qed

lemma Parse_request_text:
  assumes "fresh p" "token meth" "uri \<noteq> []" "SP \<notin> set uri" "no_control uri"
    "digits major" "digits minor" "headers_ok hs" "body_ok hs body"
  shows "\<exists>q. Parse B req p (request_text meth uri (version_text major minor) hs body @ rest) =
    Inr (good, rest, write_request B q req, Reset q) \<and> rp_method q = meth \<and> rp_uri q = uri \<and>
    rp_version q = version_text major minor \<and> rp_headers q = hs \<and> rp_body q = body"
proof -
  let ?p = "p\<lparr>rp_result := undefined_result\<rparr>"
  have p: "fresh ?p" "rp_result ?p = undefined_result" using assms(1) by simp_all
  obtain p1 where p1: "rp_run ?p (meth @ [SP] @ uri @ [SP] @ version_text major minor @ crlf) = Inl p1"
    "rp_state p1 = st_header_start" "rp_result p1 = undefined_result" "rp_method p1 = meth" "rp_uri p1 = uri"
    "rp_version p1 = version_text major minor" "rp_headers p1 = []" "rp_body p1 = []"
    using run_request_line [OF p assms(2-7)] by metis
  let ?p2 = "p1\<lparr>rp_raw_request := rp_raw_request p1 @ concat (map header_text hs), rp_headers := hs\<rparr>"
  have p2: "rp_run p1 (concat (map header_text hs)) = Inl ?p2"
    using run_headers [OF p1(2,3) assms(8)] p1(7) by simp
  obtain q where q: "rp_run ?p2 (crlf @ body @ rest) = Inr (Inr (good, q), rest)" "rp_method q = meth"
    "rp_uri q = uri" "rp_version q = version_text major minor" "rp_headers q = hs" "rp_body q = body"
    using run_end_of_headers [of ?p2 body rest] p1 assms(9) by auto
  have "rp_run ?p (request_text meth uri (version_text major minor) hs body @ rest) = Inr (Inr (good, q), rest)"
    using rpm.run_on [OF p1(1), of "concat (map header_text hs) @ crlf @ body @ rest"]
      rpm.run_on [OF p2, of "crlf @ body @ rest"] q(1)
    by (simp add: request_text_def)
  with q show ?thesis by (auto simp: Parse_def parse_loop_run)
qed

text \<open>
  \<^bold>\<open>C4.\<close> Parsing inverts rendering. From a parser in its initial state, the text of a request with
  a method in any letter case, a non-empty target without blanks and control characters, a
  version, headers with token names and values free of control characters, and a body of the
  announced length is accepted: the request gets exactly these fields, what follows the request is
  left unread, and the parser is back in its initial state.
\<close>

theorem Parse_inverts_rendering:
  assumes "boost B" "fresh p" "token meth" "map toupper meth = method_name m"
    "uri \<noteq> []" "SP \<notin> set uri" "no_control uri" "digits major" "digits minor"
    "headers_ok hs" "body_ok hs body"
  shows "\<exists>p'. Parse B req p (request_text meth uri (version_text major minor) hs body @ rest) =
      Inr (good, rest, \<lparr>req_method = m, req_uri = uri, req_headers = smap_of_pairs hs, req_body = body,
        req_version = version_text major minor\<rparr>, p') \<and> fresh p'"
proof -
  obtain q where q: "Parse B req p (request_text meth uri (version_text major minor) hs body @ rest) =
      Inr (good, rest, write_request B q req, Reset q)" "rp_method q = meth" "rp_uri q = uri"
      "rp_version q = version_text major minor" "rp_headers q = hs" "rp_body q = body"
    using Parse_request_text [OF assms(2,3,5-11)] by blast
  moreover have "getMethod B q = m" using assms(1,4) q(2) by (simp add: getMethod_name)
  ultimately show ?thesis by (simp add: write_request_def getHeaderMap_def)
qed

theorem Parse_inverts_rendering_witness:
  "\<exists>p'. Parse boost_ref \<lparr>req_method = GET, req_uri = [], req_headers = [], req_body = [], req_version = []\<rparr>
        (new_parser 7)
        (request_text ''post'' ''/echo/x'' (version_text ''1'' ''1'')
           [(''Host'', ''h''), (''Content-Length'', ''2'')] ''ab'' @ ''GET'') =
      Inr (good, ''GET'', \<lparr>req_method = POST, req_uri = ''/echo/x'',
        req_headers = smap_of_pairs [(''Host'', ''h''), (''Content-Length'', ''2'')], req_body = ''ab'',
        req_version = version_text ''1'' ''1''\<rparr>, p') \<and> fresh p'"
proof (rule Parse_inverts_rendering [OF boost_ref_documented])
  show "fresh (new_parser 7)" by simp
  show "token ''post''" "map toupper ''post'' = method_name POST" "''/echo/x'' \<noteq> []" "SP \<notin> set ''/echo/x''"
    "no_control ''/echo/x''" "digits ''1''" "digits ''1''"
    by code_simp+
  show "headers_ok [(''Host'', ''h''), (''Content-Length'', ''2'')]"
    "body_ok [(''Host'', ''h''), (''Content-Length'', ''2'')] ''ab''"
    by code_simp+
qed

section \<open>The invariant of the parser\<close>

text \<open>
  How the fields of the parser agree with its state: what has been read in the first states, that
  a header is open where the code calls \<^verbatim>\<open>headers_.back()\<close>, and how many body bytes are due.
\<close>

definition inv_front :: "request_parser \<Rightarrow> bool" where
  "inv_front p =
     (case rp_state p of
        st_method_start \<Rightarrow> rp_raw_request p = [] \<and> rp_method p = [] \<and> rp_uri p = [] \<and> rp_path p = []
      | st_method \<Rightarrow> rp_raw_request p = rp_method p \<and> token (rp_method p) \<and> rp_uri p = [] \<and> rp_path p = []
      | st_uri \<Rightarrow> rp_raw_request p = rp_method p @ SP # rp_uri p \<and> token (rp_method p) \<and> rp_path p = []
      | _ \<Rightarrow> True)"

definition inv_open :: "request_parser \<Rightarrow> bool" where
  "inv_open p =
     (rp_state p \<in> {st_header_lws, st_header_name, st_space_before_header_value, st_header_value}
        \<longrightarrow> rp_headers p \<noteq> [])"

definition inv_body :: "request_parser \<Rightarrow> bool" where
  "inv_body p =
     (if rp_state p = st_body then
        0 < rp_remaining p \<and>
        (case stoull (get_header_value (rp_headers p) ''Content-Length'') of
           Inl _ \<Rightarrow> False | Inr n \<Rightarrow> length (rp_body p) + unat (rp_remaining p) = unat n)
      else rp_body p = [])"

text \<open>No field carries a delimiter of the protocol or a path that leaves the document root.\<close>

definition inv_clean :: "request_parser \<Rightarrow> bool" where
  "inv_clean p = (SP \<notin> set (rp_uri p) \<and> no_control (rp_uri p) \<and> headers_ok (rp_headers p))"

definition rp_inv :: "request_parser \<Rightarrow> bool" where
  "rp_inv p = (inv_front p \<and> inv_open p \<and> inv_body p \<and> inv_clean p)"

lemma fresh_inv: "fresh p \<Longrightarrow> rp_inv p"
  by (simp add: fresh_def rp_inv_def inv_front_def inv_open_def inv_body_def inv_clean_def
      no_control_def headers_ok_def)

lemma headers_ok_snoc: "headers_ok (hs @ [h]) = (headers_ok hs \<and> token (fst h) \<and> no_control (snd h))"
  by (auto simp: headers_ok_def)

lemma headers_ok_single: "headers_ok [h] = (token (fst h) \<and> no_control (snd h))"
  by (auto simp: headers_ok_def)

lemma token_single [simp]: "token [c] = (\<not> not_token c)"
  by (simp add: token_def)

lemma token_snoc [simp]: "token (s @ [c]) = ((s = [] \<or> token s) \<and> \<not> not_token c)"
  by (auto simp: token_def)

lemma no_control_snoc [simp]: "no_control (s @ [c]) = (no_control s \<and> \<not> is_control_char (int_of_char c))"
  by (auto simp: no_control_def)

lemma no_control_Nil [simp]: "no_control []"
  by (simp add: no_control_def)

text \<open>What one call of \<open>NextCharHandler\<close> does to each part of the invariant.\<close>

lemma push_name_cases:
  assumes "push_name c p = Inr q"
  obtains hs k v where "rp_headers p = hs @ [(k, v)]" "q = p\<lparr>rp_headers := hs @ [(k @ [c], v)]\<rparr>"
proof (cases "rp_headers p" rule: rev_cases)
  case Nil
  with assms show thesis by (simp add: push_name_def)
next
  case (snoc hs h)
  with assms show thesis by (cases h) (auto simp: push_name_def intro: that)
qed

lemma push_value_cases:
  assumes "push_value c p = Inr q"
  obtains hs k v where "rp_headers p = hs @ [(k, v)]" "q = p\<lparr>rp_headers := hs @ [(k, v @ [c])]\<rparr>"
proof (cases "rp_headers p" rule: rev_cases)
  case Nil
  with assms show thesis by (simp add: push_value_def)
next
  case (snoc hs h)
  with assms show thesis by (cases h) (auto simp: push_value_def intro: that)
qed

lemmas step_unfold = NextCharHandler_def handle_char_def version_char_def header_char_def goto_def expect_def push_version_def bind_out_Inr

lemma next_front:
  "inv_front p \<Longrightarrow> NextCharHandler c p = Inr (undefined_result, q) \<Longrightarrow> inv_front q"
  by (cases "rp_state p")
    (auto simp: inv_front_def step_unfold Let_def token_def split: if_splits sum.splits
      elim!: push_name_cases push_value_cases)

lemma next_open:
  "NextCharHandler c p = Inr (undefined_result, q) \<Longrightarrow> inv_open p \<Longrightarrow> inv_open q"
  by (cases "rp_state p")
    (auto simp: inv_open_def step_unfold Let_def split: if_splits sum.splits
      elim!: push_name_cases push_value_cases)

lemma next_clean:
  "inv_clean p \<Longrightarrow> NextCharHandler c p = Inr (r, q) \<Longrightarrow> inv_clean q"
  by (cases "rp_state p")
    (auto simp: inv_clean_def step_unfold Let_def headers_ok_snoc headers_ok_single split: if_splits sum.splits
      elim!: push_name_cases push_value_cases)

lemma unat_pred: "0 < (n :: 64 word) \<Longrightarrow> unat (n - 1) + 1 = unat n"
  using unat_minus_one [of n] unat_gt_0 [of n] by (simp add: word_gt_0)

lemma word_zero: "\<not> 0 < (n :: 64 word) \<Longrightarrow> n = 0"
  by (simp add: word_gt_0)

lemma next_body:
  assumes "inv_body p" "NextCharHandler c p = Inr (undefined_result, q)"
  shows "inv_body q"
  using assms unat_pred [of "rp_remaining p"]
  by (cases "rp_state p")
    (auto simp: inv_body_def step_unfold GetHeaderValue_def Let_def split: if_splits sum.splits
      elim!: push_name_cases push_value_cases)

lemma next_good:
  assumes "inv_body p" "NextCharHandler c p = Inr (good, q)"
  shows "body_ok (rp_headers q) (rp_body q)"
  using assms unat_pred [of "rp_remaining p"]
  by (cases "rp_state p")
    (auto simp: inv_body_def body_ok_def step_unfold GetHeaderValue_def Let_def
      split: if_splits sum.splits dest!: word_zero)

text \<open>The only fault: the blank that ends an empty request target.\<close>

lemma infer_path_fault: "infer_path uri [] = Inl e \<Longrightarrow> uri = []"
  using infer_path_completes [of uri "[]"] by auto

lemma next_fault:
  assumes "rp_inv p" "NextCharHandler c p = Inl e"
  shows "rp_state p = st_uri \<and> c = SP \<and> rp_uri p = []"
  using assms infer_path_fault [of "rp_uri p" e]
  by (cases "rp_state p")
    (auto simp: rp_inv_def inv_open_def inv_front_def NextCharHandler_def handle_char_def version_char_def header_char_def goto_def
      expect_def bind_out_def push_name_def push_value_def Let_def split: if_splits sum.splits prod.splits)

lemma rp_inv_result [simp]: "rp_inv (p\<lparr>rp_result := r\<rparr>) = rp_inv p"
  by (simp add: rp_inv_def inv_front_def inv_open_def inv_body_def inv_clean_def
      cong: parser_state.case_cong sum.case_cong)

lemma rp_step_inv: "rp_inv p \<Longrightarrow> rp_step c p = Inl q \<Longrightarrow> rp_inv q"
proof -
  assume inv: "rp_inv p" and step: "rp_step c p = Inl q"
  then obtain q' where q': "NextCharHandler c p = Inr (undefined_result, q')" "q = q'\<lparr>rp_result := undefined_result\<rparr>"
    by (auto simp: rp_step_def split: sum.splits prod.splits if_splits) (metis Result.exhaust)
  have "rp_inv q'"
    using inv next_front [OF _ q'(1)] next_open [OF q'(1)] next_body [OF _ q'(1)] next_clean [OF _ q'(1)]
    by (simp add: rp_inv_def)
  then show ?thesis using q'(2) by simp
qed

lemma rp_run_inv: "rp_inv p \<Longrightarrow> rp_run p s = Inl q \<Longrightarrow> rp_inv q"
  by (rule rpm.run_invariant [of rp_inv, OF rp_step_inv])

lemma rp_run_decided_clean:
  assumes "rp_inv p" "rp_run p s = Inr (Inr (r, q), rest)"
  shows "inv_clean q" "r = good \<Longrightarrow> body_ok (rp_headers q) (rp_body q)"
proof -
  obtain pre c p' where p': "rp_run p pre = Inl p'" "rp_step c p' = Inr (Inr (r, q))"
    by (rule rpm.run_stops [OF assms(2)])
  then obtain q' where q': "NextCharHandler c p' = Inr (r, q')" "q = q'\<lparr>rp_result := r\<rparr>"
    by (auto simp: rp_step_def split: sum.splits prod.splits if_splits)
  have "rp_inv p'" using assms(1) p'(1) by (rule rp_run_inv)
  then have "inv_clean q'" "r = good \<Longrightarrow> body_ok (rp_headers q') (rp_body q')"
    using next_clean [OF _ q'(1)] next_good [of p' c q'] q'(1) by (simp_all add: rp_inv_def)
  then show "inv_clean q" "r = good \<Longrightarrow> body_ok (rp_headers q) (rp_body q)"
    using q'(2) by (simp_all add: inv_clean_def)
qed

text \<open>The characters read so far are exactly the recorded raw request.\<close>

lemma next_raw: "NextCharHandler c p = Inr (r, q) \<Longrightarrow> rp_raw_request q = rp_raw_request p @ [c]"
  by (cases "rp_state p")
    (auto simp: step_unfold Let_def split: if_splits sum.splits elim!: push_name_cases push_value_cases)

lemma rp_run_raw: "rp_run p s = Inl q \<Longrightarrow> rp_raw_request q = rp_raw_request p @ s"
proof (induction s arbitrary: p)
  case (Cons c s)
  then obtain p' where p': "rp_step c p = Inl p'" "rp_run p' s = Inl q" by (auto split: sum.splits)
  then have "rp_raw_request p' = rp_raw_request p @ [c]"
    using next_raw by (auto simp: rp_step_def split: sum.splits prod.splits if_splits)
  with Cons.IH [OF p'(2)] show ?case by simp
qed simp

section \<open>Safety of the parser\<close>

lemma run_to_target:
  assumes "fresh p" "rp_result p = undefined_result" "token meth"
  shows "\<exists>q. rp_run p (meth @ [SP]) = Inl q \<and> rp_state q = st_uri \<and> rp_uri q = [] \<and> rp_path q = []"
proof -
  obtain m ms where meth: "meth = m # ms" "\<not> not_token m" "\<forall>x \<in> set ms. \<not> not_token x"
    using assms(3) by (cases meth) (auto simp: token_def)
  let ?p1 = "p\<lparr>rp_state := st_method, rp_raw_request := [m], rp_method := [m]\<rparr>"
  have "rp_run p [m] = Inl ?p1" using assms(1,2) meth by (simp add: fresh_def rp_step_defs)
  moreover have "rp_run ?p1 ms = Inl (?p1\<lparr>rp_raw_request := meth, rp_method := meth\<rparr>)"
    using run_method [of ?p1 ms] assms(2) meth by simp
  moreover have "rp_run (?p1\<lparr>rp_raw_request := meth, rp_method := meth\<rparr>) [SP] =
      Inl (p\<lparr>rp_state := st_uri, rp_raw_request := meth @ [SP], rp_method := meth\<rparr>)"
    using assms(2) by (simp add: rp_step_defs)
  moreover have "meth @ [SP] = [m] @ ms @ [SP]" by (simp add: meth)
  ultimately have "rp_run p (meth @ [SP]) =
      Inl (p\<lparr>rp_state := st_uri, rp_raw_request := meth @ [SP], rp_method := meth\<rparr>)"
    by (simp only: rpm.run_on)
  with assms(1) show ?thesis by (simp add: fresh_def)
qed

text \<open>
  \<^bold>\<open>C18.\<close> Parsing from the initial state is defined on every input but one kind: the fault (reading
  \<^verbatim>\<open>path_[path_.size() - 1]\<close> of an empty path) occurs exactly when a method token is followed by
  two blanks, that is, when the request target is empty. In particular \<^verbatim>\<open>headers_.back()\<close> is
  never called on an empty vector.
\<close>

theorem Parse_completes_iff:
  assumes "fresh p"
  shows "completes (Parse B req p s) \<longleftrightarrow> \<not> (\<exists>meth rest. token meth \<and> s = meth @ [SP, SP] @ rest)"
proof -
  let ?p = "p\<lparr>rp_result := undefined_result\<rparr>"
  have p: "fresh ?p" "rp_result ?p = undefined_result" using assms by simp_all
  have "(\<exists>e rest. rp_run ?p s = Inr (Inl e, rest)) \<longleftrightarrow> (\<exists>meth rest. token meth \<and> s = meth @ [SP, SP] @ rest)"
    (is "?fault \<longleftrightarrow> ?empty")
  proof
    assume ?fault
    then obtain e rest where "rp_run ?p s = Inr (Inl e, rest)" by blast
    then obtain pre c q where q: "s = pre @ c # rest" "rp_run ?p pre = Inl q" "rp_step c q = Inr (Inl e)"
      by (rule rpm.run_stops)
    have inv: "rp_inv q" using fresh_inv [OF p(1)] q(2) by (rule rp_run_inv)
    have "NextCharHandler c q = Inl e" using q(3) by (auto simp: rp_step_def split: sum.splits prod.splits if_splits)
    with inv have "rp_state q = st_uri \<and> c = SP \<and> rp_uri q = []" by (rule next_fault)
    moreover have "rp_raw_request q = pre" using rp_run_raw [OF q(2)] p(1) by (simp add: fresh_def)
    ultimately show ?empty using inv q(1) by (auto simp: rp_inv_def inv_front_def)
  next
    assume ?empty
    then obtain meth rest where s: "token meth" "s = meth @ [SP, SP] @ rest" by blast
    obtain q where q: "rp_run ?p (meth @ [SP]) = Inl q" "rp_state q = st_uri" "rp_uri q = []" "rp_path q = []"
      using run_to_target [OF p s(1)] by blast
    have "s = (meth @ [SP]) @ SP # rest" using s(2) by simp
    then have "rp_run ?p s = rp_run q (SP # rest)" using rpm.run_on [OF q(1)] by metis
    with q show ?fault by (simp add: rp_step_defs infer_path_def char_at_def)
  qed
  then show ?thesis
    by (auto simp: Parse_def parse_loop_run completes_def split: sum.splits prod.splits)
qed

theorem Parse_completes_iff_witness:
  "\<not> completes (Parse boost_ref \<lparr>req_method = GET, req_uri = [], req_headers = [], req_body = [], req_version = []\<rparr>
     (new_parser 0) (''GET'' @ [SP, SP] @ ''HTTP/1.1''))"
proof -
  have "token ''GET''" by code_simp
  then show ?thesis by (subst Parse_completes_iff [OF fresh_new]) blast
qed

text \<open>
  \<^bold>\<open>C19.\<close> Whatever the input, a request the parser has decided on carries no delimiter of the
  protocol in its fields: the target has no blank and no control character, header names are
  tokens and header values are free of control characters (no header can smuggle in a line
  break). An accepted request has exactly the announced number of body bytes. Afterwards the
  parser is in its initial state again.
\<close>

theorem Parse_fields_clean:
  assumes "fresh p" "Parse B req p s = Inr (r, rest, req', p')" "r \<noteq> undefined_result"
  shows "SP \<notin> set (req_uri req') \<and> no_control (req_uri req') \<and> headers_ok (req_headers req') \<and>
    (r = good \<longrightarrow> body_ok (req_headers req') (req_body req')) \<and> fresh p'"
proof -
  let ?p = "p\<lparr>rp_result := undefined_result\<rparr>"
  have inv: "rp_inv ?p" using assms(1) by (simp add: fresh_inv)
  have und: "rp_result q = undefined_result" if "rp_run ?p s = Inl q" for q
    using that by (rule rp_run_undecided [rotated]) simp
  obtain q where q: "rp_run ?p s = Inr (Inr (r, q), rest)" "req' = write_request B q req" "p' = Reset q"
    using assms(2,3) und by (auto simp: Parse_def parse_loop_run split: sum.splits prod.splits)
  have look: "get_header_value hs k = (case map_of hs k of None \<Rightarrow> [] | Some v \<Rightarrow> v)" for hs k
    by (induction hs) auto
  have map: "map_of (smap_of_pairs hs) = map_of hs" for hs :: "(string \<times> string) list"
    using smap_of_pairs_lookup [of hs] by (simp add: smap_lookup_def fun_eq_iff)
  have "set (smap_of_pairs hs) \<subseteq> set hs" for hs :: "(string \<times> string) list"
  proof
    fix h assume "h \<in> set (smap_of_pairs hs)"
    then have "smap_lookup (smap_of_pairs hs) (fst h) = Some (snd h)"
      using headers_map.iterate_set [OF smap_of_pairs_wf, of "fst h" "snd h" hs] by simp
    then show "h \<in> set hs" using smap_of_pairs_lookup [of hs] map_of_SomeD [of hs "fst h" "snd h"] by simp
  qed
  then have "headers_ok hs \<Longrightarrow> headers_ok (smap_of_pairs hs)" for hs
    by (auto simp: headers_ok_def)
  with rp_run_decided_clean [OF inv q(1)] q(2,3) show ?thesis
    by (auto simp: inv_clean_def write_request_def getHeaderMap_def body_ok_def look map)
qed

theorem Parse_fields_clean_witness:
  "SP \<notin> set ''/a'' \<and> no_control ''/a'' \<and> headers_ok [(''H'', ''v w'')] \<and>
   body_ok [(''H'', ''v w'')] [] \<and> fresh (Reset (new_parser 0\<lparr>rp_result := good\<rparr>))"
proof -
  let ?req = "\<lparr>req_method = GET, req_uri = [], req_headers = [], req_body = [], req_version = []\<rparr>"
  let ?req' = "\<lparr>req_method = GET, req_uri = ''/a'', req_headers = [(''H'', ''v w'')], req_body = [],
      req_version = ''HTTP/1.1''\<rparr>"
  have "Parse boost_ref ?req (new_parser 0) (''GET /a HTTP/1.1'' @ crlf @ ''H: v w'' @ crlf @ crlf @ ''x'') =
      Inr (good, ''x'', ?req', Reset (new_parser 0\<lparr>rp_result := good\<rparr>))"
    by code_simp
  from Parse_fields_clean [OF fresh_new this] show ?thesis by simp
qed

section \<open>The path inferred from a target\<close>

text \<open>
  \<^bold>\<open>C37.\<close> The path inferred from a request target never contains \<^verbatim>\<open>..\<close>, after percent-decoding, and
  never ends in a slash: a directory gets its index page.
\<close>

theorem infer_path_safe:
  assumes "infer_path uri [] = Inr path"
  shows "\<not> sublist ''..'' path \<and> (path = [] \<or> last path \<noteq> CHR ''/'')"
proof (cases "decode_path uri []")
  case None
  with assms show ?thesis by (auto simp: infer_path_def)
next
  case (Some d)
  show ?thesis
  proof (cases "sublist ''..'' d")
    case True
    with assms Some show ?thesis by (auto simp: infer_path_def str_find_absent)
  next
    case False
    with assms Some have d: "d \<noteq> []" "path = (if last d = CHR ''/'' then d @ ''index.html'' else d)"
      by (auto simp: infer_path_def str_find_absent char_at_last split: if_splits)
    have "\<not> sublist ''..'' (d @ ''index.html'')" if "last d = CHR ''/''"
    proof
      assume "sublist ''..'' (d @ ''index.html'')"
      then obtain u v where "''..'' = u @ v" "suffix u d" "prefix v ''index.html''"
        using False by (auto simp: sublist_append sublist_code)
      then show False using that d(1)
        by (cases u rule: rev_cases) (auto simp: Cons_eq_append_conv append_eq_Cons_conv suffix_def)
    qed
    with False d show ?thesis by auto
  qed
qed

theorem infer_path_safe_witness:
  "\<not> sublist ''..'' ''/a/index.html'' \<and> last ''/a/index.html'' \<noteq> CHR ''/''"
proof -
  have "infer_path ''/%61/'' [] = Inr ''/a/index.html''" by code_simp
  from infer_path_safe [OF this] show ?thesis by simp
qed

end
