(* ===== verification/Session.thy ===== *)
theory Session
  imports Handler_Log Dispatcher Request_Parser
begin

text \<open>
  A connection, \<^verbatim>\<open>src/session.cc\<close>. The state holds the members of the session and the globals it works
  on: the request parser all sessions share, the server's table, the handlers' statics and the log. Events are the completions of asynchronous operations; what is handed to the socket is
  collected in order. The threads a session starts and waits for (or only detaches, for a bad request)
  are taken to run at the point where they are started, and buffers given to asynchronous writes are
  taken to live until the write. The lemmas of this theory are on routing; what a session does with the
  requests of a client is in \<^verbatim>\<open>Session_Serving\<close>, and with other input in \<^verbatim>\<open>Session_Errors\<close>.
\<close>

section \<open>The state\<close>

definition max_length :: nat where
  "max_length = 1024"

record session =
  request_start :: bool
  http_body :: string
  ses_request :: request
  ses_data :: string
  ses_deleted :: bool
  ses_sent :: "string list"
  g_parser :: request_parser
  g_handlers :: handler_table
  g_statics :: statics
  g_logger :: logger

text \<open>An operation ends with a value or a fault, or does not return.\<close>

type_synonym 'a run = "'a outcome option"

definition bind_run :: "'a run \<Rightarrow> ('a \<Rightarrow> 'b run) \<Rightarrow> 'b run" where
  "bind_run m f = (case m of None \<Rightarrow> None | Some (Inl e) \<Rightarrow> Some (Inl e) | Some (Inr x) \<Rightarrow> f x)"

lemma bind_run_simps [simp]:
  "bind_run None f = None" "bind_run (Some (Inl e)) f = Some (Inl e)" "bind_run (Some (Inr x)) f = f x"
  by (simp_all add: bind_run_def)

text \<open>\<^verbatim>\<open>std::string request(data_)\<close>: up to the first null; undefined without one.\<close>

definition c_string :: "string \<Rightarrow> string outcome" where
  "c_string buf = (if NUL \<in> set buf then Inr (takeWhile (\<lambda>c. c \<noteq> NUL) buf) else Inl Undefined_Behaviour)"

definition clear_data :: "session \<Rightarrow> session" where
  "clear_data st = st\<lparr>ses_data := replicate max_length NUL\<rparr>"

definition send_response :: "string \<Rightarrow> session \<Rightarrow> session" where
  "send_response response st = (clear_data st)\<lparr>ses_sent := ses_sent st @ [response]\<rparr>"

text \<open>\<^verbatim>\<open>dispatcher::dispatch\<close> on this session: every kind of response passes through \<open>send_response\<close>.\<close>

definition dispatch_response :: "(nat \<Rightarrow> nat \<Rightarrow> nat) \<Rightarrow> response \<Rightarrow> session \<Rightarrow> session run" where
  "dispatch_response accept res st =
     map_option (\<lambda>ws. Inr ((clear_data st)\<lparr>ses_sent := ses_sent st @ ws\<rparr>)) (dispatch accept res)"

section \<open>Finding the handler\<close>

text \<open>The loop that shortens the prefix until it is in the table.\<close>

function route :: "handler_table \<Rightarrow> string \<Rightarrow> string \<Rightarrow> bool \<times> string" where
  "route tbl pre temp =
     (if smap_lookup tbl temp \<noteq> None then (True, temp)
      else let pos = find_last_of (CHR ''/'') pre in
        if pos = -1 then (False, temp)
        else route tbl (take (nat pos) pre) (quoted (take (nat pos) pre)))"
  by pat_completeness auto
termination
proof (relation "measure (\<lambda>(tbl, p, t). length p)")
  fix tbl :: handler_table and pre temp :: string and pos
  assume "pos = find_last_of (CHR ''/'') pre" "pos \<noteq> -1"
  then show "((tbl, take (nat pos) pre, quoted (take (nat pos) pre)), tbl, pre, temp) \<in> measure (\<lambda>(tbl, p, t). length p)"
    using find_last_of_less [of "CHR ''/''" pre] find_last_of_ge [of "CHR ''/''" pre] by auto
qed simp

declare route.simps [simp del]

definition first_key :: "string \<Rightarrow> string" where
  "first_key uri = (if starts_with ''http'' uri then quoted ''/http'' else quoted uri)"

text \<open>
  \<^verbatim>\<open>handler_task\<close>. Looking up the root location with \<^verbatim>\<open>[]\<close> stores a null pointer where there is no
  entry; calling a handler through a null pointer is undefined.
\<close>

definition handler_task :: "environment \<Rightarrow> bool \<Rightarrow> string \<Rightarrow> session \<Rightarrow> (response \<times> session) outcome" where
  "handler_task env found temp st =
     (let answer = (\<lambda>h tbl. bind_out (handleRequest env h (ses_request st) (g_statics st)) (\<lambda>(res, s').
            Inr (res, st\<lparr>g_handlers := tbl, g_statics := s',
              g_logger := log_messages (handler_messages env h (ses_request st) (g_statics st)) (g_logger st)\<rparr>)))
      in if \<not> found then
           let key = quoted ''/''; tbl = smap_insert key None (g_handlers st) in
           (case smap_lookup tbl key of Some (Some h) \<Rightarrow> answer h tbl | _ \<Rightarrow> answer Error_Obj tbl)
         else
           let tbl = smap_insert temp None (g_handlers st) in
           (case smap_lookup tbl temp of Some (Some h) \<Rightarrow> answer h tbl | _ \<Rightarrow> Inl Undefined_Behaviour))"

section \<open>Good and bad requests\<close>

definition finish_request :: "session \<Rightarrow> session" where
  "finish_request st = st\<lparr>http_body := [], ses_request := reset_request (ses_request st)\<rparr>"

definition good_request :: "environment \<Rightarrow> (nat \<Rightarrow> nat \<Rightarrow> nat) \<Rightarrow> string \<Rightarrow> session \<Rightarrow> (string \<times> session) run" where
  "good_request env accept request st =
     (case Parse (env_boost env) (ses_request st) (g_parser st) request of
        Inl e \<Rightarrow> Some (Inl e)
      | Inr (_, _, req, p) \<Rightarrow>
          let st1 = st\<lparr>ses_request := req, g_parser := p, g_logger := setPath (req_uri req) (g_logger st)\<rparr>;
              (found, temp) = route (g_handlers st1) (req_uri req) (first_key (req_uri req))
          in case handler_task env found temp st1 of
               Inl e \<Rightarrow> Some (Inl e)
             | Inr (res, st2) \<Rightarrow>
                 bind_run (dispatch_response accept res st2) (\<lambda>st3.
                   Some (Inr (Dispatcher_ToString (res_code res),
                     finish_request (st3\<lparr>g_logger :=
                       log_reset (log_write sev_info ''VALID REQUEST'' (setStatus (to_string (code_number (res_code res))) (g_logger st3)))\<rparr>)))))"

text \<open>\<^verbatim>\<open>EchoHandler::handler\<close>: the response to a text, handed to the session.\<close>

definition Echo_handler :: "string \<Rightarrow> bool \<Rightarrow> session \<Rightarrow> session outcome" where
  "Echo_handler request is_valid st =
     bind_out (Echo_getResponse request is_valid) (\<lambda>response. Inr (send_response response st))"

text \<open>
  \<^verbatim>\<open>bad_request\<close> is given a reference to \<^verbatim>\<open>http_body\<close>, which it clears before it returns it.
\<close>

definition bad_request :: "environment \<Rightarrow> session \<Rightarrow> (string \<times> session) outcome" where
  "bad_request env st =
     bind_out (Parse (env_boost env) (ses_request st) (g_parser st) (http_body st)) (\<lambda>(_, _, req, p).
       let st1 = st\<lparr>ses_request := req, g_parser := p,
                    g_logger := log_reset (log_write sev_warning (''INVALID REQUEST: '' @ http_body st)
                      (setStatus ''400'' (setPath (req_uri req) (g_logger st))))\<rparr>
       in bind_out (Echo_handler (http_body st) False st1) (\<lambda>st2.
            let st3 = finish_request st2 in Inr (http_body st3, st3)))"

section \<open>Events\<close>

text \<open>
  An error an asynchronous operation reports: whether it is \<^verbatim>\<open>boost::asio::error::eof\<close>, and what its
  \<^verbatim>\<open>message()\<close> is. The end of the connection is logged as an information, anything else as an error.
\<close>

record error_code =
  ec_eof :: bool
  ec_message :: string

definition error_severity :: "error_code \<Rightarrow> severity" where
  "error_severity e = (if ec_eof e then sev_info else sev_error)"

definition delete_session :: "error_code \<Rightarrow> session \<Rightarrow> session" where
  "delete_session e st =
     st\<lparr>ses_deleted := True, g_logger := resetIp (log_write (error_severity e) (ec_message e) (g_logger st))\<rparr>"

definition long_string_handler :: "environment \<Rightarrow> (nat \<Rightarrow> nat \<Rightarrow> nat) \<Rightarrow> string \<Rightarrow> nat \<Rightarrow> session \<Rightarrow> (bool \<times> session) run" where
  "long_string_handler env accept request n st =
     (if request_start st \<or> complete request n then Some (Inr (False, st))
      else case check_request (env_boost env) request of
        Inl e \<Rightarrow> Some (Inl e)
      | Inr False \<Rightarrow> Some (Inr (False, st))
      | Inr True \<Rightarrow>
          let st1 = st\<lparr>http_body := http_body st @ request\<rparr> in
          bind_run (good_request env accept (http_body st1) st1) (\<lambda>(_, st2). Some (Inr (True, st2))))"

text \<open>\<^verbatim>\<open>handle_write\<close> starts the next read; after an error the session deletes itself.\<close>

definition handle_write :: "error_code option \<Rightarrow> session \<Rightarrow> bool \<times> session" where
  "handle_write err st = (case err of None \<Rightarrow> (True, st) | Some e \<Rightarrow> (False, delete_session e st))"

definition after_bad :: "environment \<Rightarrow> session \<Rightarrow> (bool \<times> session) run" where
  "after_bad env st = Some (bind_out (bad_request env st) (\<lambda>(_, st'). Inr (True, st')))"

definition handle_request_part :: "environment \<Rightarrow> string \<Rightarrow> session \<Rightarrow> (bool \<times> session) run" where
  "handle_request_part env request st0 =
     (let st = st0\<lparr>request_start := True, http_body := http_body st0 @ request\<rparr> in
      if check_requestLine (env_boost env) request then
        (case substr request 0 (str_find [SP] request) of
           Inl e \<Rightarrow> Some (Inl e)
         | Inr name \<Rightarrow>
             if check_method name < 0 then after_bad env (st\<lparr>request_start := False\<rparr>)
             else Some (Inr (True, snd (handle_write None (clear_data st)))))
      else if \<not> check_header (env_boost env) request then after_bad env (st\<lparr>request_start := False\<rparr>)
      else Some (Inr (True, snd (handle_write None (clear_data st)))))"

definition handle_read :: "environment \<Rightarrow> (nat \<Rightarrow> nat \<Rightarrow> nat) \<Rightarrow> error_code option \<Rightarrow> nat \<Rightarrow> session \<Rightarrow> (bool \<times> session) run" where
  "handle_read env accept err n st =
     (case err of
        Some e \<Rightarrow> Some (Inr (False, delete_session e st))
      | None \<Rightarrow>
      (case c_string (ses_data st) of
        Inl e \<Rightarrow> Some (Inl e)
      | Inr request \<Rightarrow>
          bind_run (long_string_handler env accept request n st) (\<lambda>(handled, st1).
            if handled then Some (Inr (True, st1))
            else if request_start st1 \<and> complete request n then
              let st2 = st1\<lparr>request_start := False, http_body := http_body st1 @ request\<rparr> in
              bind_run (good_request env accept (http_body st2) st2) (\<lambda>(_, st3). Some (Inr (True, st3)))
            else if request_start st1 \<or> check_requestLine (env_boost env) request then
              handle_request_part env request st1
            else if \<not> request_start st1 \<and> filter_CRLF (env_boost env) request = 0 then
              Some (Inr (True, snd (handle_write None st1)))
            else after_bad env (st1\<lparr>http_body := http_body st1 @ request\<rparr>))))"

text \<open>The completion of a read: the bytes that arrived replace the beginning of the buffer.\<close>

definition read_event :: "environment \<Rightarrow> (nat \<Rightarrow> nat \<Rightarrow> nat) \<Rightarrow> string \<Rightarrow> session \<Rightarrow> (bool \<times> session) run" where
  "read_event env accept chunk st =
     handle_read env accept None (length chunk) (st\<lparr>ses_data := chunk @ drop (length chunk) (ses_data st)\<rparr>)"

text \<open>A new session; the buffer is not initialised.\<close>

definition new_session :: "string \<Rightarrow> request \<Rightarrow> request_parser \<Rightarrow> handler_table \<Rightarrow> statics \<Rightarrow> logger \<Rightarrow> session" where
  "new_session garbage req p tbl s l =
     \<lparr>request_start = False, http_body = [], ses_request = req, ses_data = garbage, ses_deleted = False,
      ses_sent = [], g_parser = p, g_handlers = tbl, g_statics = s, g_logger = l\<rparr>"

section \<open>Routing\<close>

lemma route_here: "smap_lookup tbl temp \<noteq> None \<Longrightarrow> route tbl pre temp = (True, temp)"
  by (subst route.simps) simp

lemma route_up:
  "smap_lookup tbl temp = None \<Longrightarrow> CHR ''/'' \<notin> set x \<Longrightarrow>
   route tbl (path_text segs @ CHR ''/'' # x) temp = route tbl (path_text segs) (quoted (path_text segs))"
  by (subst route.simps) (simp add: find_last_of_split)

lemma route_segments:
  assumes "segments_ok segs" "k \<le> length segs" "smap_lookup tbl (quoted (path_text (take k segs))) \<noteq> None"
    "\<forall>j. k < j \<and> j \<le> length segs \<longrightarrow> smap_lookup tbl (quoted (path_text (take j segs))) = None"
  shows "route tbl (path_text segs) (quoted (path_text segs)) = (True, quoted (path_text (take k segs)))"
  using assms
proof (induction segs rule: rev_induct)
  case (snoc x segs)
  show ?case
  proof (cases "k = length (segs @ [x])")
    case True
    with snoc.prems(3) route_here show ?thesis by simp
  next
    case False
    then have k: "k \<le> length segs" using snoc.prems(2) by simp
    have "smap_lookup tbl (quoted (path_text segs @ CHR ''/'' # x)) = None"
      using snoc.prems(4) [rule_format, of "length segs + 1"] k by simp
    moreover have "smap_lookup tbl (quoted (path_text (take j segs))) = None" if "k < j" "j \<le> length segs" for j
      using snoc.prems(4) [rule_format, of j] that by simp
    ultimately show ?thesis using snoc k by (simp add: route_up segments_ok_def)
  qed
qed (simp add: route_here)

lemma route_not_found:
  assumes "segments_ok segs" "\<forall>j \<le> length segs. smap_lookup tbl (quoted (path_text (take j segs))) = None"
  shows "route tbl (path_text segs) (quoted (path_text segs)) = (False, quoted [])"
  using assms
proof (induction segs rule: rev_induct)
  case Nil
  then show ?case by (subst route.simps) simp
next
  case (snoc x segs)
  have "smap_lookup tbl (quoted (path_text segs @ CHR ''/'' # x)) = None"
    using snoc.prems(2) [rule_format, of "length segs + 1"] by simp
  moreover have "smap_lookup tbl (quoted (path_text (take j segs))) = None" if "j \<le> length segs" for j
    using snoc.prems(2) [rule_format, of j] that by simp
  ultimately show ?case using snoc by (simp add: route_up segments_ok_def)
qed

lemma path_not_http: "\<not> starts_with ''http'' (path_text segs)"
  by (cases segs) (auto simp: starts_with_def path_text_def)

lemma highest_index:
  assumes "filter P (rev [0..<n]) = k # ks"
  shows "k < n \<and> P k \<and> (\<forall>j. k < j \<and> j < n \<longrightarrow> \<not> P j)"
proof -
  have "set (filter P (rev [0..<n])) = {j. j < n \<and> P j}" by auto
  moreover have "sorted_wrt (\<ge>) (filter P (rev [0..<n]))"
    by (intro sorted_wrt_filter) (simp add: sorted_wrt_rev)
  ultimately show ?thesis using assms by (fastforce dest: leD)
qed

text \<open>
  \<^bold>\<open>C8.\<close> A request goes to the handler of the longest location that is a prefix of its target at a slash;
  a target under no location of the table is reported as not found.
\<close>

theorem route_longest_prefix:
  assumes "segments_ok segs"
  shows "route tbl (path_text segs) (first_key (path_text segs)) =
    (case filter (\<lambda>j. smap_lookup tbl (quoted (path_text (take j segs))) \<noteq> None) (rev [0..<length segs + 1]) of
       [] \<Rightarrow> (False, quoted []) | k # _ \<Rightarrow> (True, quoted (path_text (take k segs))))"
proof (cases "filter (\<lambda>j. smap_lookup tbl (quoted (path_text (take j segs))) \<noteq> None) (rev [0..<length segs + 1])")
  case Nil
  then have "\<forall>j \<le> length segs. smap_lookup tbl (quoted (path_text (take j segs))) = None"
    unfolding filter_empty_conv by auto
  with route_not_found [OF assms] Nil path_not_http show ?thesis by (simp add: first_key_def)
next
  case (Cons k ks)
  from highest_index [OF this] have k: "k \<le> length segs" "smap_lookup tbl (quoted (path_text (take k segs))) \<noteq> None"
      "\<forall>j. k < j \<and> j \<le> length segs \<longrightarrow> smap_lookup tbl (quoted (path_text (take j segs))) = None" by auto
  from route_segments [OF assms k] Cons path_not_http show ?thesis by (simp add: first_key_def)
qed

theorem route_longest_prefix_witness:
  "route [(quoted ''/a'', Some Echo_Obj)] (path_text [''a'', ''b'', ''c'']) (first_key (path_text [''a'', ''b'', ''c''])) =
     (True, quoted (path_text (take 1 [''a'', ''b'', ''c''])))"
proof -
  have "segments_ok [''a'', ''b'', ''c'']" by code_simp
  moreover have "filter (\<lambda>j. smap_lookup [(quoted ''/a'', Some Echo_Obj)] (quoted (path_text (take j [''a'', ''b'', ''c'']))) \<noteq> None)
      (rev [0..<length [''a'', ''b'', ''c''] + 1]) = [1]" by code_simp
  ultimately show ?thesis using route_longest_prefix [of "[''a'', ''b'', ''c'']" "[(quoted ''/a'', Some Echo_Obj)]"] by simp
qed

end
