(* ===== verification/Session_Serving.thy ===== *)
theory Session_Serving
  imports Session
begin

text \<open>
  Serving the requests of well-behaved clients: requests that arrive in one piece, one after the other,
  and requests that arrive line by line.
\<close>

section \<open>A complete request is answered\<close>

text \<open>
  Between requests: nothing collected, the buffer cleared, the parser in its initial state. A session that
  is only \<open>open_for\<close> \<open>n\<close> bytes has nothing collected, and some null in its buffer behind them; its buffer may
  be that of a new session, which is not initialised. \<open>behind\<close> is the memory the string then goes on with.
\<close>

definition open_for :: "nat \<Rightarrow> session \<Rightarrow> bool" where
  "open_for n st = (\<not> request_start st \<and> http_body st = [] \<and> NUL \<in> set (drop n (ses_data st)))"

definition behind :: "nat \<Rightarrow> session \<Rightarrow> string" where
  "behind n st = takeWhile (\<lambda>c. c \<noteq> NUL) (drop n (ses_data st))"

definition waiting :: "session \<Rightarrow> bool" where
  "waiting st = (\<not> request_start st \<and> http_body st = [] \<and> ses_data st = replicate max_length NUL)"

definition idle :: "session \<Rightarrow> bool" where
  "idle st = (waiting st \<and> fresh (g_parser st))"

lemma waiting_open: "waiting st \<Longrightarrow> n < max_length \<Longrightarrow> open_for n st \<and> behind n st = []"
  by (auto simp: waiting_def open_for_def behind_def takeWhile_eq_Nil_iff)

lemma c_string_open:
  assumes "NUL \<notin> set chunk" "open_for (length chunk) st"
  shows "c_string (chunk @ drop (length chunk) (ses_data st)) = Inr (chunk @ behind (length chunk) st)"
  using assms by (auto simp: c_string_def open_for_def behind_def takeWhile_append)

lemma c_string_chunk:
  assumes "NUL \<notin> set chunk" "length chunk < max_length"
  shows "c_string (chunk @ drop (length chunk) (replicate max_length NUL)) = Inr chunk"
  using assms by (auto simp: c_string_def takeWhile_append takeWhile_eq_Nil_iff)

text \<open>
  What an answered request leaves in the log: the messages of the handler under the path of the request,
  and then the line that also has the code of the response.
\<close>

definition request_logged :: "string \<Rightarrow> (severity \<times> string) list \<Rightarrow> StatusCode \<Rightarrow> logger \<Rightarrow> logger" where
  "request_logged uri ms code l =
     log_reset (log_write sev_info ''VALID REQUEST'' (setStatus (to_string (code_number code)) (log_messages ms (setPath uri l))))"

text \<open>The records that have the code of a response, and the one an answered request makes.\<close>

definition metrics :: "logger \<Rightarrow> log_record list" where
  "metrics l = filter (\<lambda>r. lr_resCode r \<noteq> []) (log_records l)"

definition request_record :: "string \<Rightarrow> string \<Rightarrow> StatusCode \<Rightarrow> log_record" where
  "request_record ip uri code =
     \<lparr>lr_clientIp = ip, lr_reqPath = ''[Request_Path: '' @ uri @ '']'',
      lr_resCode = ''[Response_Code: '' @ to_string (code_number code) @ '']'', lr_severity = sev_info, lr_message = ''VALID REQUEST''\<rparr>"

lemma request_logged_metrics:
  "log_resCode l = [] \<Longrightarrow> metrics (request_logged uri ms code l) = metrics l @ [request_record (log_clientIp l) uri code]"
  "log_resCode (request_logged uri ms code l) = []" "log_reqPath (request_logged uri ms code l) = []"
  "log_clientIp (request_logged uri ms code l) = log_clientIp l"
  by (auto simp: metrics_def request_logged_def request_record_def log_messages_records log_write_def logger_defs filter_empty_conv)

text \<open>What a good request does to the session, given the outcome of parsing and of the handler.\<close>

lemma good_request_answers:
  assumes "writes_some accept"
    "Parse (env_boost env) (ses_request st) (g_parser st) request = Inr (r, rest, req, p)"
    "route (g_handlers st) (req_uri req) (first_key (req_uri req)) = (found, key)"
    "\<And>l. handler_task env found key (st\<lparr>ses_request := req, g_parser := p, g_logger := l\<rparr>) =
       Inr (res, st\<lparr>ses_request := req, g_parser := p, g_logger := log_messages ms l, g_handlers := tbl, g_statics := s'\<rparr>)"
  shows "\<exists>ws. concat ws = response_head res @ res_body res \<and>
    good_request env accept request st = Some (Inr (Dispatcher_ToString (res_code res),
      st\<lparr>http_body := [], ses_request := reset_request req, ses_data := replicate max_length NUL,
         ses_sent := ses_sent st @ ws, g_parser := p, g_handlers := tbl, g_statics := s',
         g_logger := request_logged (req_uri req) ms (res_code res) (g_logger st)\<rparr>))"
proof -
  have "\<exists>ws. dispatch accept res = Some ws \<and> concat ws = response_head res @ res_body res"
    using write_loop_all [OF assms(1), of 0 "res_body res" 0] by (auto simp: dispatch_def)
  then obtain ws where ws: "dispatch accept res = Some ws" "concat ws = response_head res @ res_body res" by blast
  show ?thesis
  proof (intro exI conjI)
    show "concat ws = response_head res @ res_body res" by (rule ws)
    show "good_request env accept request st = Some (Inr (Dispatcher_ToString (res_code res),
      st\<lparr>http_body := [], ses_request := reset_request req, ses_data := replicate max_length NUL,
         ses_sent := ses_sent st @ ws, g_parser := p, g_handlers := tbl, g_statics := s',
         g_logger := request_logged (req_uri req) ms (res_code res) (g_logger st)\<rparr>))"
      using assms(2,3,4) ws(1)
      by (simp add: good_request_def dispatch_response_def clear_data_def finish_request_def request_logged_def)
  qed
qed

lemma read_good:
  assumes "open_for (length chunk) st" "NUL \<notin> set chunk" "req = chunk @ behind (length chunk) st"
    "check_request (env_boost env) req = Inr True" "req \<noteq> crlf"
  shows "read_event env accept chunk st =
    bind_run (good_request env accept req (st\<lparr>ses_data := chunk @ drop (length chunk) (ses_data st), http_body := req\<rparr>))
      (\<lambda>(_, st'). Some (Inr (True, st')))"
proof -
  let ?st = "st\<lparr>ses_data := chunk @ drop (length chunk) (ses_data st)\<rparr>"
  have "c_string (ses_data ?st) = Inr req" using assms(1-3) c_string_open by simp
  moreover have "long_string_handler env accept req (length chunk) ?st =
      bind_run (good_request env accept req (?st\<lparr>http_body := req\<rparr>)) (\<lambda>(_, st'). Some (Inr (True, st')))"
    using assms(1,4,5) by (simp add: long_string_handler_def complete_def open_for_def)
  ultimately show ?thesis
    by (simp add: read_event_def handle_read_def bind_run_def split: option.split sum.split prod.split)
qed

text \<open>Reading a chunk that is a whole request, in one step.\<close>

lemma read_request:
  assumes "writes_some accept" "open_for (length chunk) st" "NUL \<notin> set chunk" "txt = chunk @ behind (length chunk) st"
    "check_request (env_boost env) txt = Inr True" "txt \<noteq> crlf"
    "Parse (env_boost env) (ses_request st) (g_parser st) txt = Inr (r, rest, req, p)"
    "route (g_handlers st) (req_uri req) (first_key (req_uri req)) = (found, key)"
    "\<And>st'. g_handlers st' = g_handlers st \<Longrightarrow> g_statics st' = g_statics st \<Longrightarrow> ses_request st' = req \<Longrightarrow>
       handler_task env found key st' = Inr (res, st'\<lparr>g_handlers := tbl, g_statics := s', g_logger := log_messages ms (g_logger st')\<rparr>)"
  shows "\<exists>st' ws. read_event env accept chunk st = Some (Inr (True, st')) \<and>
    ses_sent st' = ses_sent st @ ws \<and> concat ws = response_head res @ res_body res \<and>
    waiting st' \<and> g_parser st' = p \<and> g_handlers st' = tbl \<and> g_statics st' = s' \<and> ses_request st' = reset_request req \<and>
    g_logger st' = request_logged (req_uri req) ms (res_code res) (g_logger st)"
proof -
  let ?st = "st\<lparr>ses_data := chunk @ drop (length chunk) (ses_data st), http_body := txt\<rparr>"
  have parse: "Parse (env_boost env) (ses_request ?st) (g_parser ?st) txt = Inr (r, rest, req, p)"
    and route: "route (g_handlers ?st) (req_uri req) (first_key (req_uri req)) = (found, key)"
    and task: "handler_task env found key (?st\<lparr>ses_request := req, g_parser := p, g_logger := l\<rparr>) =
      Inr (res, ?st\<lparr>ses_request := req, g_parser := p, g_logger := log_messages ms l, g_handlers := tbl, g_statics := s'\<rparr>)" for l
    using assms(7,8,9) by simp_all
  obtain ws where ws: "concat ws = response_head res @ res_body res"
      "good_request env accept txt ?st = Some (Inr (Dispatcher_ToString (res_code res),
        ?st\<lparr>http_body := [], ses_request := reset_request req, ses_data := replicate max_length NUL,
           ses_sent := ses_sent ?st @ ws, g_parser := p, g_handlers := tbl, g_statics := s',
           g_logger := request_logged (req_uri req) ms (res_code res) (g_logger ?st)\<rparr>))"
    using good_request_answers [OF assms(1) parse route task] by blast
  show ?thesis
    unfolding read_good [OF assms(2-6)] ws(2) using ws(1) assms(2) by (auto simp: waiting_def open_for_def)
qed

subsection \<open>Requests the session recognises\<close>

lemma in_lang_Seq: "in_lang r u \<Longrightarrow> in_lang s v \<Longrightarrow> in_lang (Seq r s) (u @ v)"
  by auto

lemma in_lang_Star_Cls: "in_lang (Star (Cls p)) w \<longleftrightarrow> (\<forall>c \<in> set w. p c)"
  using in_star_Cls by simp

lemma in_lang_Star_simple: "in_lang (Star any_char) w" "in_lang (Star r) []"
  by (simp_all add: in_star.nil)

lemma matches_boost: "boost B \<Longrightarrow> xpressive_match B r w \<longleftrightarrow> in_lang r w"
  by (simp add: regex_engine.matches_lang boost.axioms)

lemma request_line_accepted:
  assumes "boost B" "meth \<noteq> []" "\<forall>c \<in> set meth. isupper c" "a \<in> {CHR ''1'', CHR ''2''}" "b \<in> {CHR ''0'', CHR ''1'', CHR ''2''}"
  shows "check_requestLine B (meth @ [SP] @ (CHR ''/'' # t) @ [SP] @ version_text [a] [b] @ crlf)"
proof -
  have "in_lang version_pattern ([SP] @ ''HTTP/'' @ [a] @ ''.'' @ [b] @ crlf)"
    unfolding version_pattern_def using assms(4,5)
    by (intro in_lang_Seq) (simp_all add: in_lang_plus_Cls isspace_def del: in_lang.simps(5))
  then have "in_lang request_line_pattern (meth @ [SP] @ ''/'' @ t @ [SP] @ ''HTTP/'' @ [a] @ ''.'' @ [b] @ crlf)"
    unfolding request_line_pattern_def using assms(2,3)
    by (intro in_lang_Seq) (simp_all add: in_lang_plus_Cls isspace_def del: in_lang.simps(5))
  then show ?thesis
    using assms(1) by (simp add: check_requestLine_def matches_boost version_text_def del: in_lang.simps)
qed

text \<open>
  The names of headers that both the pattern of the session and the parser take: groups of letters joined
  by hyphens, as in \<^verbatim>\<open>Content-Length\<close>; after the first hyphen also the other characters the misspelt range
  admits, as far as they may stand in a token.
\<close>

definition header_name_pattern :: rexp where
  "header_name_pattern =
     Seq (plus (Cls alpha))
    (Star (Seq (lit ''-'') (plus (Cls (\<lambda>c. islower c \<or> CHR ''A'' \<le> c \<and> c \<le> CHR ''z'')))))"

definition header_name :: "string \<Rightarrow> bool" where
  "header_name k = (rx_match header_name_pattern k \<and> token k)"

lemma header_accepted:
  assumes "boost B" "header_name k"
  shows "check_header B (k @ '': '' @ v)"
proof -
  obtain u w where k: "k = u @ w" "in_lang (plus (Cls alpha)) u"
      "in_lang (Star (Seq (lit ''-'') (plus (Cls (\<lambda>c. islower c \<or> CHR ''A'' \<le> c \<and> c \<le> CHR ''z''))))) w"
    using assms(2) unfolding header_name_def header_name_pattern_def rx_match_correct in_lang.simps(5) by blast
  have "in_lang (Seq (lit '':'') (Seq (Star (Cls isspace)) (Star any_char))) ('':'' @ [SP] @ v)"
    by (intro in_lang_Seq) (simp_all add: isspace_def in_lang_Star_Cls in_lang_Star_simple del: in_lang.simps(5,6))
  from in_lang_Seq [OF k(2) in_lang_Seq [OF k(3) this]]
  have "in_lang header_pattern (k @ '': '' @ v)" by (simp add: header_pattern_def k(1) del: in_lang.simps)
  then show ?thesis using assms(1) by (simp add: check_header_def matches_boost del: in_lang.simps)
qed

lemma all_chars: "list_all P (enum_class.enum :: char list) \<Longrightarrow> P c"
  by (simp add: list_all_iff in_enum)

lemma alpha_token: "alpha c \<Longrightarrow> \<not> not_token c \<and> c \<noteq> CR \<and> c \<noteq> NUL"
proof -
  have "list_all (\<lambda>c. alpha c \<longrightarrow> \<not> not_token c \<and> c \<noteq> CR \<and> c \<noteq> NUL) enum_class.enum" by code_simp
  from all_chars [OF this] show "alpha c \<Longrightarrow> \<not> not_token c \<and> c \<noteq> CR \<and> c \<noteq> NUL" by blast
qed

lemma not_token_facts: "\<not> not_token c \<Longrightarrow> c \<noteq> CR \<and> c \<noteq> NUL \<and> \<not> isspace c"
proof -
  have "list_all (\<lambda>c. not_token c \<or> c \<noteq> CR \<and> c \<noteq> NUL \<and> \<not> isspace c) enum_class.enum" by code_simp
  from all_chars [OF this] show "\<not> not_token c \<Longrightarrow> c \<noteq> CR \<and> c \<noteq> NUL \<and> \<not> isspace c" by blast
qed

lemma header_name_clean: "header_name k \<Longrightarrow> token k \<and> CR \<notin> set k \<and> NUL \<notin> set k \<and> (\<forall>c \<in> set k. \<not> isspace c)"
  using not_token_facts by (auto simp: header_name_def token_def)

lemma no_control_clean: "no_control s \<Longrightarrow> CR \<notin> set s \<and> NUL \<notin> set s"
  by (auto simp: no_control_def is_control_char_def int_of_char_def)

lemma method_name_facts:
  "method_name m \<noteq> []" "\<forall>c \<in> set (method_name m). isupper c" "map toupper (method_name m) = method_name m"
  "0 \<le> check_method (method_name m)" "SP \<notin> set (method_name m)"
proof -
  have "list_all (\<lambda>m. method_name m \<noteq> [] \<and> list_all isupper (method_name m) \<and> map toupper (method_name m) = method_name m \<and>
      0 \<le> check_method (method_name m) \<and> SP \<notin> set (method_name m)) [GET, POST, PUT, DELETE, HEAD, CONNECT, OPTIONS, TRACE, PATCH]"
    by code_simp
  moreover have "m \<in> set [GET, POST, PUT, DELETE, HEAD, CONNECT, OPTIONS, TRACE, PATCH]" by (cases m) simp_all
  ultimately show "method_name m \<noteq> []" "\<forall>c \<in> set (method_name m). isupper c" "map toupper (method_name m) = method_name m"
      "0 \<le> check_method (method_name m)" "SP \<notin> set (method_name m)"
    unfolding list_all_iff by blast+
qed

lemma upper_alpha: "isupper c \<Longrightarrow> alpha c"
  by (simp add: alpha_def)

text \<open>
  The requests of a well-behaved client, in the form the patterns of the session recognise: a target
  of segments, headers with names both the patterns and the parser take, a body of the length a
  \<^verbatim>\<open>Content-Length\<close> header states, and no null byte.
\<close>

definition client_request :: "string list \<Rightarrow> char \<Rightarrow> char \<Rightarrow> (string \<times> string) list \<Rightarrow> string \<Rightarrow> bool" where
  "client_request segs a b hs body =
     (segs \<noteq> [] \<and> segments_ok segs \<and> SP \<notin> set (path_text segs) \<and> no_control (path_text segs) \<and>
      a \<in> {CHR ''1'', CHR ''2''} \<and> b \<in> {CHR ''0'', CHR ''1'', CHR ''2''} \<and>
      (\<forall>(k, v) \<in> set hs. header_name k \<and> no_control v) \<and>
      body_ok hs body \<and> NUL \<notin> set body)"

definition client_text :: "Method \<Rightarrow> string list \<Rightarrow> char \<Rightarrow> char \<Rightarrow> (string \<times> string) list \<Rightarrow> string \<Rightarrow> string" where
  "client_text m segs a b hs body = request_text (method_name m) (path_text segs) (version_text [a] [b]) hs body"

lemma version_digits: "a \<in> {CHR ''1'', CHR ''2''} \<Longrightarrow> digits [a]" "b \<in> {CHR ''0'', CHR ''1'', CHR ''2''} \<Longrightarrow> digits [b]"
  by (auto simp: digits_def is_digit_def int_of_char_def)

lemma client_text_lines:
  "client_text m segs a b hs body =
     (method_name m @ [SP] @ path_text segs @ [SP] @ version_text [a] [b]) @ CR # LF # lines (map (\<lambda>(k, v). k @ '': '' @ v) hs) @ crlf @ body"
proof -
  have "concat (map header_text hs) = lines (map (\<lambda>(k, v). k @ '': '' @ v) hs)"
    by (induction hs) (auto simp: header_text_def)
  then show ?thesis by (simp add: client_text_def request_text_def)
qed

lemma client_text_parses:
  assumes "boost B" "client_request segs a b hs body" "fresh p"
  shows "\<exists>p'. fresh p' \<and> Parse B req p (client_text m segs a b hs body @ extra) =
    Inr (good, extra, \<lparr>req_method = m, req_uri = path_text segs, req_headers = smap_of_pairs hs, req_body = body,
        req_version = version_text [a] [b]\<rparr>, p')"
proof -
  have tok: "token (method_name m)" using method_name_facts(1,2) [of m] alpha_token upper_alpha by (auto simp: token_def)
  have uri: "path_text segs \<noteq> []" using assms(2) by (cases segs) (auto simp: client_request_def path_text_def)
  have hs: "headers_ok hs" using assms(2) header_name_clean by (fastforce simp: client_request_def headers_ok_def)
  obtain q where q: "Parse B req p (client_text m segs a b hs body @ extra) = Inr (good, extra, write_request B q req, Reset q)"
      "rp_method q = method_name m" "rp_uri q = path_text segs" "rp_version q = version_text [a] [b]"
      "rp_headers q = hs" "rp_body q = body"
    using Parse_request_text [OF assms(3) tok uri _ _ _ _ hs, of "[a]" "[b]" body B req extra] assms(2) version_digits
    by (auto simp: client_request_def client_text_def)
  moreover have "getMethod B q = m" using getMethod_name [OF assms(1), of q m] q(2) method_name_facts(3) by simp
  ultimately show ?thesis by (simp add: write_request_def getHeaderMap_def)
qed

lemma client_text_clean:
  assumes "client_request segs a b hs body"
  shows "NUL \<notin> set (client_text m segs a b hs body)"
    "CR \<notin> set (method_name m @ [SP] @ path_text segs @ [SP] @ version_text [a] [b])"
proof -
  have m: "CR \<notin> set (method_name m)" "NUL \<notin> set (method_name m)"
    using method_name_facts(2) [of m] alpha_token upper_alpha by blast+
  have uri: "CR \<notin> set (path_text segs)" "NUL \<notin> set (path_text segs)"
    using assms no_control_clean [of "path_text segs"] by (simp_all add: client_request_def)
  have v: "CR \<notin> set (version_text [a] [b])" "NUL \<notin> set (version_text [a] [b])"
    using assms by (auto simp: client_request_def version_text_def)
  have "NUL \<notin> set (header_text h)" if "h \<in> set hs" for h
  proof -
    obtain k v where h: "h = (k, v)" by (cases h)
    with that assms have "header_name k" "no_control v" by (auto simp: client_request_def)
    then have "NUL \<notin> set k" "NUL \<notin> set v" using header_name_clean no_control_clean by blast+
    then show ?thesis by (simp add: h header_text_def)
  qed
  then have "NUL \<notin> set (concat (map header_text hs))" by auto
  with m uri v assms show "NUL \<notin> set (client_text m segs a b hs body)"
    unfolding client_text_def request_text_def client_request_def by simp
  show "CR \<notin> set (method_name m @ [SP] @ path_text segs @ [SP] @ version_text [a] [b])" using m uri v by simp
qed

lemma client_text_checked:
  assumes "boost B" "client_request segs a b hs body"
  shows "check_request B (client_text m segs a b hs body @ extra) = Inr True"
proof -
  let ?l = "method_name m @ [SP] @ path_text segs @ [SP] @ version_text [a] [b]"
  obtain t where t: "path_text segs = CHR ''/'' # t" using assms(2) by (cases segs) (auto simp: client_request_def path_text_def)
  have "check_requestLine B (?l @ crlf)"
    using request_line_accepted [OF assms(1) method_name_facts(1,2), of a b m t] assms(2)
    by (simp add: client_request_def t)
  moreover have "takeWhile (\<lambda>c. c \<noteq> SP) (?l @ crlf) = method_name m"
    using takeWhile_to [OF method_name_facts(5)] by simp
  moreover have "header_lines B (map (\<lambda>(k, v). k @ '': '' @ v) hs)"
    unfolding header_lines_def
  proof
    fix l
    assume "l \<in> set (map (\<lambda>(k, v). k @ '': '' @ v) hs)"
    then obtain k v where l: "l = k @ '': '' @ v" "header_name k" "no_control v" using assms(2) by (auto simp: client_request_def)
    then have "CR \<notin> set l" using header_name_clean no_control_clean by auto
    then show "l \<noteq> [] \<and> \<not> sublist crlf l \<and> check_header B l"
      using header_accepted [OF assms(1) l(2)] no_CR_no_crlf by (simp add: l(1))
  qed
  moreover have "\<not> sublist crlf ?l" using client_text_clean(2) [OF assms(2)] by (rule no_CR_no_crlf)
  ultimately show ?thesis
    using method_name_facts(4) [of m] check_request_line [of ?l B "lines (map (\<lambda>(k, v). k @ '': '' @ v) hs) @ crlf @ body @ extra"]
    unfolding client_text_lines by auto
qed


subsection \<open>Sequences of requests\<close>

text \<open>The handler the table gives for a target: of the longest location, or else of the root location.\<close>

definition handler_for :: "handler_table \<Rightarrow> string \<Rightarrow> handler_obj option" where
  "handler_for tbl uri =
     (case route tbl uri (first_key uri) of (found, key) \<Rightarrow>
        (case smap_lookup tbl (if found then key else quoted ''/'') of Some (Some h) \<Rightarrow> Some h | _ \<Rightarrow> None))"

lemma handler_task_known:
  assumes "smap_lookup (g_handlers st) (if found then key else quoted ''/'') = Some (Some h)"
    "handleRequest env h (ses_request st) (g_statics st) = Inr (res, s')"
  shows "handler_task env found key st = Inr (res, st\<lparr>g_handlers := g_handlers st, g_statics := s',
    g_logger := log_messages (handler_messages env h (ses_request st) (g_statics st)) (g_logger st)\<rparr>)"
proof -
  have "smap_insert (if found then key else quoted ''/'') None (g_handlers st) = g_handlers st"
    using assms(1) by (simp add: smap_insert_def)
  with assms show ?thesis by (cases found) (simp_all add: handler_task_def Let_def)
qed

record client =
  cl_method :: Method
  cl_segments :: "string list"
  cl_major :: char
  cl_minor :: char
  cl_headers :: "(string \<times> string) list"
  cl_body :: string

definition cl_text :: "client \<Rightarrow> string" where
  "cl_text c = client_text (cl_method c) (cl_segments c) (cl_major c) (cl_minor c) (cl_headers c) (cl_body c)"

definition cl_request :: "client \<Rightarrow> request" where
  "cl_request c = \<lparr>req_method = cl_method c, req_uri = path_text (cl_segments c),
     req_headers = smap_of_pairs (cl_headers c), req_body = cl_body c, req_version = version_text [cl_major c] [cl_minor c]\<rparr>"

definition cl_ok :: "client \<Rightarrow> bool" where
  "cl_ok c = (client_request (cl_segments c) (cl_major c) (cl_minor c) (cl_headers c) (cl_body c) \<and> length (cl_text c) < max_length)"

lemma client_text_not_blank: "client_text m segs a b hs body @ extra \<noteq> crlf"
  using method_name_facts(1,2) [of m]
  by (cases "method_name m") (auto simp: client_text_def request_text_def isupper_def)

fun read_events :: "environment \<Rightarrow> (nat \<Rightarrow> nat \<Rightarrow> nat) \<Rightarrow> string list \<Rightarrow> session \<Rightarrow> session run" where
  "read_events env accept [] st = Some (Inr st)"
| "read_events env accept (chunk # chunks) st =
     bind_run (read_event env accept chunk st) (\<lambda>(_, st'). read_events env accept chunks st')"

text \<open>The server's answer to a request as a handler of its own; a target without a handler is left out.\<close>

definition table_handler :: "environment \<Rightarrow> handler_table \<Rightarrow> handler" where
  "table_handler env tbl r s =
     (case handler_for tbl (req_uri r) of Some h \<Rightarrow> handleRequest env h r s | None \<Rightarrow> Inl Undefined_Behaviour)"

interpretation table_h: request_handler "table_handler env tbl" for env tbl
  by unfold_locales (auto simp: table_handler_def split: option.splits dest: any_h.handle_wf any_h.handle_log)

text \<open>The messages the handler the table gives writes.\<close>

definition table_messages :: "environment \<Rightarrow> handler_table \<Rightarrow> request \<Rightarrow> statics \<Rightarrow> (severity \<times> string) list" where
  "table_messages env tbl r s =
     (case handler_for tbl (req_uri r) of Some h \<Rightarrow> handler_messages env h r s | None \<Rightarrow> [])"

lemma cl_text_accepted:
  assumes "boost B" "cl_ok c"
  shows "NUL \<notin> set (cl_text c)" "check_request B (cl_text c @ extra) = Inr True" "cl_text c @ extra \<noteq> crlf"
  using assms client_text_clean(1) client_text_checked unfolding cl_text_def cl_ok_def by (blast, blast, intro client_text_not_blank)

text \<open>A request is answered as the parser understands it.\<close>

lemma read_parsed:
  assumes "boost (env_boost env)" "writes_some accept" "open_for (length (cl_text c)) st" "cl_ok c"
    "Parse (env_boost env) (ses_request st) (g_parser st) (cl_text c @ behind (length (cl_text c)) st) = Inr (v, rest, r, p)"
    "table_handler env (g_handlers st) r (g_statics st) = Inr (res, s')"
  shows "\<exists>st' ws. read_event env accept (cl_text c) st = Some (Inr (True, st')) \<and>
    ses_sent st' = ses_sent st @ ws \<and> concat ws = response_head res @ res_body res \<and>
    waiting st' \<and> g_parser st' = p \<and> g_handlers st' = g_handlers st \<and> g_statics st' = s' \<and>
    g_logger st' = request_logged (req_uri r) (table_messages env (g_handlers st) r (g_statics st)) (res_code res) (g_logger st)"
proof -
  obtain found key where route: "route (g_handlers st) (req_uri r) (first_key (req_uri r)) = (found, key)"
    by (cases "route (g_handlers st) (req_uri r) (first_key (req_uri r))")
  obtain h where h: "smap_lookup (g_handlers st) (if found then key else quoted ''/'') = Some (Some h)"
      "handleRequest env h r (g_statics st) = Inr (res, s')"
    using assms(6) by (auto simp: table_handler_def handler_for_def route split: option.splits)
  have ms: "table_messages env (g_handlers st) r (g_statics st) = handler_messages env h r (g_statics st)"
    using h(1) by (simp add: table_messages_def handler_for_def route)
  have "handler_task env found key st' = Inr (res, st'\<lparr>g_handlers := g_handlers st, g_statics := s',
      g_logger := log_messages (handler_messages env h r (g_statics st)) (g_logger st')\<rparr>)"
    if "g_handlers st' = g_handlers st" "g_statics st' = g_statics st" "ses_request st' = r" for st'
    using handler_task_known [of st' found key h env res s'] h that by simp
  from read_request [OF assms(2,3) cl_text_accepted(1) [OF assms(1,4)] refl cl_text_accepted(2,3) [OF assms(1,4)] assms(5) route this]
  show ?thesis unfolding ms by blast
qed

lemma cl_text_parses:
  assumes "boost B" "cl_ok c" "fresh p"
  shows "\<exists>p'. fresh p' \<and> Parse B req p (cl_text c @ extra) = Inr (good, extra, cl_request c, p')"
  using client_text_parses [OF assms(1) _ assms(3)] assms(2) by (simp add: cl_ok_def cl_text_def cl_request_def)

lemma read_table:
  assumes "boost (env_boost env)" "writes_some accept" "open_for (length (cl_text c)) st" "fresh (g_parser st)" "cl_ok c"
    "table_handler env (g_handlers st) (cl_request c) (g_statics st) = Inr (res, s')"
  shows "\<exists>st' ws. read_event env accept (cl_text c) st = Some (Inr (True, st')) \<and>
    ses_sent st' = ses_sent st @ ws \<and> concat ws = response_head res @ res_body res \<and>
    idle st' \<and> g_handlers st' = g_handlers st \<and> g_statics st' = s' \<and>
    g_logger st' = request_logged (path_text (cl_segments c)) (table_messages env (g_handlers st) (cl_request c) (g_statics st))
      (res_code res) (g_logger st)"
proof -
  obtain p where p: "fresh p" "Parse (env_boost env) (ses_request st) (g_parser st) (cl_text c @ behind (length (cl_text c)) st) =
      Inr (good, behind (length (cl_text c)) st, cl_request c, p)"
    using cl_text_parses [OF assms(1,5,4)] by blast
  have "req_uri (cl_request c) = path_text (cl_segments c)" by (simp add: cl_request_def)
  with read_parsed [OF assms(1-3,5) p(2) assms(6)] p(1) show ?thesis unfolding idle_def by auto
qed

lemma read_client:
  assumes "boost (env_boost env)" "writes_some accept" "open_for (length (cl_text c)) st" "fresh (g_parser st)" "cl_ok c"
    "route (g_handlers st) (path_text (cl_segments c)) (first_key (path_text (cl_segments c))) = (found, key)"
    "\<And>st'. g_handlers st' = g_handlers st \<Longrightarrow> g_statics st' = g_statics st \<Longrightarrow> ses_request st' = cl_request c \<Longrightarrow>
       handler_task env found key st' = Inr (res, st'\<lparr>g_handlers := tbl, g_statics := s', g_logger := log_messages ms (g_logger st')\<rparr>)"
  shows "\<exists>st' ws. read_event env accept (cl_text c) st = Some (Inr (True, st')) \<and>
    ses_sent st' = ses_sent st @ ws \<and> concat ws = response_head res @ res_body res \<and>
    idle st' \<and> g_handlers st' = tbl \<and> g_statics st' = s' \<and>
    g_logger st' = request_logged (path_text (cl_segments c)) ms (res_code res) (g_logger st)"
proof -
  let ?extra = "behind (length (cl_text c)) st"
  obtain p where p: "fresh p" "Parse (env_boost env) (ses_request st) (g_parser st) (cl_text c @ ?extra) = Inr (good, ?extra, cl_request c, p)"
    using cl_text_parses [OF assms(1,5,4)] by blast
  from read_request [OF assms(2,3) cl_text_accepted(1) [OF assms(1,5)] refl cl_text_accepted(2,3) [OF assms(1,5)] p(2),
      where found = found and key = key and res = res and tbl = tbl and s' = s' and ms = ms]
  show ?thesis using assms(6,7) p(1) by (fastforce simp: cl_request_def idle_def)
qed

lemma idle_open: "idle st \<Longrightarrow> cl_ok c \<Longrightarrow> open_for (length (cl_text c)) st \<and> fresh (g_parser st)"
  using waiting_open by (simp add: idle_def cl_ok_def)

lemma idle_serves_requests:
  assumes "boost (env_boost env)" "writes_some accept" "idle st" "list_all cl_ok cs"
    "serve (table_handler env (g_handlers st)) (map cl_request cs) (g_statics st) = Inr (ress, s')"
  shows "\<exists>st' ws. read_events env accept (map cl_text cs) st = Some (Inr st') \<and>
    ses_sent st' = ses_sent st @ ws \<and> concat ws = concat (map (\<lambda>res. response_head res @ res_body res) ress) \<and>
    idle st' \<and> g_handlers st' = g_handlers st \<and> g_statics st' = s'"
  using assms(3-5)
proof (induction cs arbitrary: st ress)
  case (Cons c cs)
  obtain res s1 ress1 where h: "table_handler env (g_handlers st) (cl_request c) (g_statics st) = Inr (res, s1)"
      "serve (table_handler env (g_handlers st)) (map cl_request cs) s1 = Inr (ress1, s')" "ress = res # ress1"
    using Cons.prems(3) by (auto simp: bind_out_Inr)
  have ok: "cl_ok c" "list_all cl_ok cs" using Cons.prems(2) by simp_all
  have st: "open_for (length (cl_text c)) st" "fresh (g_parser st)" using idle_open [OF Cons.prems(1) ok(1)] by blast+
  obtain st1 ws1 where 1: "read_event env accept (cl_text c) st = Some (Inr (True, st1))" "ses_sent st1 = ses_sent st @ ws1"
      "concat ws1 = response_head res @ res_body res" "idle st1" "g_handlers st1 = g_handlers st" "g_statics st1 = s1"
    using read_table [OF assms(1,2) st ok(1) h(1)] by blast
  have "serve (table_handler env (g_handlers st1)) (map cl_request cs) (g_statics st1) = Inr (ress1, s')"
    using h(2) 1(5,6) by simp
  from Cons.IH [OF 1(4) ok(2) this] obtain st2 ws2 where 2: "read_events env accept (map cl_text cs) st1 = Some (Inr st2)"
      "ses_sent st2 = ses_sent st1 @ ws2" "concat ws2 = concat (map (\<lambda>res. response_head res @ res_body res) ress1)"
      "idle st2" "g_handlers st2 = g_handlers st1" "g_statics st2 = s'" by blast
  show ?case
    using 1 2 h(3) by (intro exI [of _ st2] exI [of _ "ws1 @ ws2"]) simp
qed simp

text \<open>
  \<^bold>\<open>C3.\<close> Any sequence of requests in the form the session recognises (a method in capitals and a path, a
  version, headers, and the body the \<^verbatim>\<open>Content-Length\<close> header announces), each of at most 1023 bytes and
  arriving in one piece, is answered, provided no handler faults on it: the session hands to the socket,
  in order, exactly the heads and bodies of the responses the handlers compute one after the other for
  the requests the texts state, each by the handler of the longest matching location or else of the root
  location. Afterwards the session waits for the next request, with the records and caches the handlers
  left. The buffer may be that of a new session, which is not initialised: all it needs is a null
  somewhere behind the bytes of the first request, since the memory before that null is read as text
  behind the request and ignored.
\<close>

theorem session_serves_requests:
  assumes "boost (env_boost env)" "writes_some accept" "open_for (length (cl_text c)) st" "fresh (g_parser st)" "list_all cl_ok (c # cs)"
    "serve (table_handler env (g_handlers st)) (map cl_request (c # cs)) (g_statics st) = Inr (ress, s')"
  shows "\<exists>st' ws. read_events env accept (map cl_text (c # cs)) st = Some (Inr st') \<and>
    ses_sent st' = ses_sent st @ ws \<and> concat ws = concat (map (\<lambda>res. response_head res @ res_body res) ress) \<and>
    idle st' \<and> g_handlers st' = g_handlers st \<and> g_statics st' = s'"
proof -
  obtain res s1 ress1 where h: "table_handler env (g_handlers st) (cl_request c) (g_statics st) = Inr (res, s1)"
      "serve (table_handler env (g_handlers st)) (map cl_request cs) s1 = Inr (ress1, s')" "ress = res # ress1"
    using assms(6) by (auto simp: bind_out_Inr)
  have ok: "cl_ok c" "list_all cl_ok cs" using assms(5) by simp_all
  obtain st1 ws1 where 1: "read_event env accept (cl_text c) st = Some (Inr (True, st1))" "ses_sent st1 = ses_sent st @ ws1"
      "concat ws1 = response_head res @ res_body res" "idle st1" "g_handlers st1 = g_handlers st" "g_statics st1 = s1"
    using read_table [OF assms(1-4) ok(1) h(1)] by blast
  have "serve (table_handler env (g_handlers st1)) (map cl_request cs) (g_statics st1) = Inr (ress1, s')"
    using h(2) 1(5,6) by simp
  from idle_serves_requests [OF assms(1,2) 1(4) ok(2) this] 1 h(3) show ?thesis
    by (fastforce intro: exI [of _ "ws1 @ _"])
qed


text \<open>A small server for examples.\<close>

definition demo_env :: environment where
  "demo_env = \<lparr>env_boost = boost_ref, env_curl = one_reply [] [], env_clock = all_at 0, env_disk = demo_disk\<rparr>"

definition demo_session :: "handler_table \<Rightarrow> session" where
  "demo_session tbl = new_session (replicate max_length NUL) (ask [] []) (new_parser 0) tbl initial_statics
     initial_logger"

definition demo_client :: "string list \<Rightarrow> client" where
  "demo_client segs = \<lparr>cl_method = GET, cl_segments = segs, cl_major = CHR ''1'', cl_minor = CHR ''1'',
     cl_headers = [(''Host'', ''h'')], cl_body = []\<rparr>"

lemma demo_env_facts: "boost (env_boost demo_env)" "writes_some (\<lambda>k n. n)"
  by (simp_all add: demo_env_def boost_ref_documented writes_some_def)

lemma demo_session_idle: "idle (demo_session tbl)"
  by (simp add: demo_session_def new_session_def idle_def waiting_def)

text \<open>A client that sends a body, to a session whose buffer holds letters and one null.\<close>

definition demo_post :: client where
  "demo_post = (demo_client [''e'', ''hi''])\<lparr>cl_method := POST, cl_headers := [(''User-Agent'', ''c/7''), (''Content-Length'', ''3'')],
     cl_body := ''abc''\<rparr>"

definition littered_buffer :: string where
  "littered_buffer = replicate 1000 (CHR ''x'') @ NUL # replicate 23 (CHR ''y'')"

definition littered_session :: "handler_table \<Rightarrow> session" where
  "littered_session tbl = (demo_session tbl)\<lparr>ses_data := littered_buffer\<rparr>"

lemma littered_buffer_facts: "length littered_buffer = max_length" "n < 1000 \<Longrightarrow> NUL \<in> set (drop n littered_buffer)"
  by (simp_all add: littered_buffer_def max_length_def)

lemma demo_post_ok: "cl_ok demo_post"
  by code_simp

lemma littered_open: "n < 1000 \<Longrightarrow> open_for n (littered_session tbl)" "fresh (g_parser (littered_session tbl))"
  by (simp_all add: open_for_def littered_session_def demo_session_def new_session_def littered_buffer_facts)

theorem session_serves_requests_witness:
  "\<exists>st' ws. read_events demo_env (\<lambda>k n. n) (map cl_text [demo_post, demo_client [''h'']])
       (littered_session [(quoted ''/e'', Some Echo_Obj), (quoted ''/h'', Some Health_Obj)]) = Some (Inr st') \<and>
     ses_sent st' = ws \<and>
     concat ws = (response_head (plain_text_response ''hi'' sc_ok) @ ''hi'') @ (response_head (plain_text_response ''OK'' sc_ok) @ ''OK'')"
proof -
  let ?tbl = "[(quoted ''/e'', Some Echo_Obj), (quoted ''/h'', Some Health_Obj)]"
  let ?st = "littered_session ?tbl" and ?cs = "[demo_post, demo_client [''h'']]"
  let ?S = "serve (table_handler demo_env ?tbl) (map cl_request ?cs) initial_statics"
  have ok: "list_all cl_ok ?cs" by code_simp
  have n: "ses_sent ?st = []" "g_handlers ?st = ?tbl" "g_statics ?st = initial_statics"
    by (simp_all add: littered_session_def demo_session_def new_session_def)
  have "isl ?S = False" "fst (projr ?S) = [plain_text_response ''hi'' sc_ok, plain_text_response ''OK'' sc_ok]" by code_simp+
  then have "?S = Inr ([plain_text_response ''hi'' sc_ok, plain_text_response ''OK'' sc_ok], snd (projr ?S))"
    by (metis isl_def prod.collapse sum.collapse(2))
  then have S: "serve (table_handler demo_env (g_handlers ?st)) (map cl_request ?cs) (g_statics ?st) =
      Inr ([plain_text_response ''hi'' sc_ok, plain_text_response ''OK'' sc_ok], snd (projr ?S))" unfolding n(2,3) .
  have b: "res_body (plain_text_response t c) = t" for t c by (simp add: plain_text_response_def)
  have "length (cl_text demo_post) < 1000" by code_simp
  from session_serves_requests [OF demo_env_facts littered_open(1) [OF this] littered_open(2) ok S]
  show ?thesis by (auto simp: b n(1))
qed

section \<open>Requests that arrive line by line\<close>

text \<open>A word whose first factor ends before a character it does not allow.\<close>

lemma in_lang_head:
  assumes "in_lang (Seq (plus (Cls p)) (Seq (Cls q) r)) (k @ c # s)" "\<forall>x \<in> set k. \<not> q x" "\<not> p c"
  shows "q c \<and> in_lang r s"
proof -
  obtain u d v where u: "k @ c # s = u @ d # v" "\<forall>x \<in> set u. p x" "q d" "in_lang r v"
    using assms(1) by (auto simp: in_lang_plus_Cls)
  have "length u = length k"
  proof (rule ccontr)
    assume "length u \<noteq> length k"
    then consider "length u < length k" | "length k < length u" by linarith
    then show False
    proof cases
      case 1
      then have "d \<in> set k" using u(1) by (metis nth_append nth_append_length nth_mem)
      with u(3) assms(2) show False by blast
    next
      case 2
      then have "c \<in> set u" using u(1) by (metis nth_append nth_append_length nth_mem)
      with u(2) assms(3) show False by blast
    qed
  qed
  with u show ?thesis by simp
qed

lemma alpha_not_space: "alpha c \<Longrightarrow> \<not> isspace c"
proof -
  have "list_all (\<lambda>c. alpha c \<longrightarrow> \<not> isspace c) enum_class.enum" by code_simp
  from all_chars [OF this] show "alpha c \<Longrightarrow> \<not> isspace c" by blast
qed

abbreviation scheme_pattern :: rexp where
  "scheme_pattern \<equiv> Alt (lit ''http://www.'') (Alt (lit ''https://www.'') (Alt (lit ''http://'') (lit ''https://'')))"

lemma lit_first: "in_lang (Seq (lit (a # as)) r) (b # s) \<Longrightarrow> a = b"
  by auto

lemma scheme_first: "in_lang (Seq scheme_pattern r) (b # s) \<Longrightarrow> b = CHR ''h''"
  by auto

text \<open>Neither a header line nor a word is a request line.\<close>

lemma word_no_request_line:
  assumes "boost B" "\<forall>x \<in> set k. \<not> isspace x" "\<not> alpha c" "\<not> isspace c \<or> (\<exists>s'. s = LF # s')"
  shows "\<not> check_requestLine B (k @ c # s)"
proof -
  have "\<not> isupper c" using assms(3) upper_alpha by blast
  have "isspace c \<and> in_lang (Seq (lit ''/'') (Seq (Star any_char) version_pattern)) s"
    if "in_lang request_line_pattern (k @ c # s)"
    using in_lang_head [OF that [unfolded request_line_pattern_def]] assms(2) \<open>\<not> isupper c\<close> by blast
  then have "\<not> in_lang request_line_pattern (k @ c # s)" using assms(4) lit_first by fastforce
  moreover have "isspace c \<and> in_lang (Seq scheme_pattern (Seq (plus (Seq (plus (Cls host_char)) (lit ''.'')))
      (Seq (plus (Cls host_char)) (Seq (lit ''/'') (Seq (Star any_char) version_pattern))))) s"
    if "in_lang absolute_path_pattern (k @ c # s)"
    using in_lang_head [OF that [unfolded absolute_path_pattern_def]] assms(2,3) by blast
  then have "\<not> in_lang absolute_path_pattern (k @ c # s)" using assms(4) scheme_first by fastforce
  ultimately show ?thesis using assms(1) by (simp add: check_requestLine_def matches_boost del: in_lang.simps)
qed

definition cl_line :: "client \<Rightarrow> string" where
  "cl_line c = (method_name (cl_method c) @ [SP] @ path_text (cl_segments c) @ [SP] @ version_text [cl_major c] [cl_minor c]) @ crlf"

definition cl_lines :: "client \<Rightarrow> string list" where
  "cl_lines c = cl_line c # map header_text (cl_headers c) @ [crlf]"

lemma concat_cl_lines: "cl_body c = [] \<Longrightarrow> concat (cl_lines c) = cl_text c"
  by (simp add: cl_lines_def cl_line_def cl_text_def client_text_def request_text_def)

text \<open>A request of which the lines \<open>sofar\<close> have arrived.\<close>

definition collecting :: "string \<Rightarrow> session \<Rightarrow> bool" where
  "collecting sofar st = (request_start st \<and> http_body st = sofar \<and> ses_data st = replicate max_length NUL)"

lemma read_first_line:
  assumes "boost (env_boost env)" "waiting st" "length (cl_line c) < max_length"
    "client_request (cl_segments c) (cl_major c) (cl_minor c) (cl_headers c) (cl_body c)"
  shows "read_event env accept (cl_line c) st = Some (Inr (True, st\<lparr>request_start := True, http_body := cl_line c\<rparr>))"
proof -
  let ?l = "method_name (cl_method c) @ [SP] @ path_text (cl_segments c) @ [SP] @ version_text [cl_major c] [cl_minor c]"
  let ?st = "st\<lparr>ses_data := cl_line c @ drop (length (cl_line c)) (ses_data st)\<rparr>"
  obtain t where t: "path_text (cl_segments c) = CHR ''/'' # t"
    using assms(4) by (cases "cl_segments c") (auto simp: client_request_def path_text_def)
  have line: "cl_line c = ?l @ CR # LF # []" by (simp add: cl_line_def)
  have sub: "NUL \<notin> set (cl_line c)"
    using client_text_clean(1) [OF assms(4), of "cl_method c"] by (auto simp: line client_text_def request_text_def)
  have meth: "takeWhile (\<lambda>c. c \<noteq> SP) (cl_line c) = method_name (cl_method c)"
    using takeWhile_to [OF method_name_facts(5)] by (simp add: line)
  have chk: "check_requestLine (env_boost env) (cl_line c)"
    using request_line_accepted [OF assms(1) method_name_facts(1,2), of "cl_major c" "cl_minor c" "cl_method c" t] assms(4)
    by (simp add: client_request_def t cl_line_def)
  have req: "check_request (env_boost env) (cl_line c) = Inr False"
    unfolding line by (subst check_request_line [OF no_CR_no_crlf [OF client_text_clean(2) [OF assms(4)]]]) simp
  have notend: "\<not> complete (cl_line c) (length (cl_line c))"
    using method_name_facts(1) [of "cl_method c"] by (simp add: complete_def line)
  have "c_string (ses_data ?st) = Inr (cl_line c)"
    using c_string_chunk [OF sub assms(3)] assms(2) by (simp add: waiting_def)
  then show ?thesis
    using assms(2) chk req notend meth method_name_facts(4) [of "cl_method c"]
    by (simp add: read_event_def handle_read_def long_string_handler_def handle_request_part_def substr_to_blank
        handle_write_def clear_data_def waiting_def)
qed

lemma read_header_line:
  assumes "boost (env_boost env)" "collecting sofar st" "header_name k" "no_control v"
    "length (header_text (k, v)) < max_length"
  shows "read_event env accept (header_text (k, v)) st = Some (Inr (True, st\<lparr>http_body := sofar @ header_text (k, v)\<rparr>))"
proof -
  let ?h = "header_text (k, v)"
  have h: "?h = k @ CHR '':'' # SP # v @ crlf" "?h = k @ '': '' @ (v @ crlf)" by (simp_all add: header_text_def)
  have k: "NUL \<notin> set k" "\<forall>x \<in> set k. \<not> isspace x" using header_name_clean [OF assms(3)] by blast+
  then have "NUL \<notin> set ?h" using assms(4) no_control_clean by (auto simp: header_text_def)
  then have "c_string (?h @ drop (length ?h) (replicate max_length NUL)) = Inr ?h" using c_string_chunk assms(5) by blast
  moreover have "\<not> check_requestLine (env_boost env) ?h"
    unfolding h(1) by (rule word_no_request_line [OF assms(1) k(2)]) (simp_all add: alpha_def isupper_def islower_def isspace_def)
  moreover have "check_header (env_boost env) ?h" unfolding h(2) by (rule header_accepted [OF assms(1,3)])
  moreover have "\<not> complete ?h (length ?h)" by (simp add: header_text_def complete_def)
  ultimately show ?thesis
    using assms(2)
    by (simp add: read_event_def handle_read_def long_string_handler_def handle_request_part_def handle_write_def
        clear_data_def collecting_def)
qed

text \<open>What a good request of a client does, once it is complete.\<close>

lemma good_table:
  assumes "boost (env_boost env)" "writes_some accept" "fresh (g_parser st)"
    "client_request (cl_segments c) (cl_major c) (cl_minor c) (cl_headers c) (cl_body c)"
    "table_handler env (g_handlers st) (cl_request c) (g_statics st) = Inr (res, s')"
  shows "\<exists>ws p. fresh p \<and> concat ws = response_head res @ res_body res \<and>
    good_request env accept (cl_text c) st = Some (Inr (Dispatcher_ToString (res_code res),
      st\<lparr>http_body := [], ses_request := reset_request (cl_request c), ses_data := replicate max_length NUL,
         ses_sent := ses_sent st @ ws, g_parser := p, g_handlers := g_handlers st, g_statics := s',
         g_logger := request_logged (path_text (cl_segments c)) (table_messages env (g_handlers st) (cl_request c) (g_statics st))
           (res_code res) (g_logger st)\<rparr>))"
proof -
  obtain p where p: "fresh p" "Parse (env_boost env) (ses_request st) (g_parser st) (cl_text c) = Inr (good, [], cl_request c, p)"
    using client_text_parses [OF assms(1,4,3), of "ses_request st" "cl_method c" "[]"] by (auto simp: cl_text_def cl_request_def)
  obtain found key where route: "route (g_handlers st) (req_uri (cl_request c)) (first_key (req_uri (cl_request c))) = (found, key)"
    by (cases "route (g_handlers st) (req_uri (cl_request c)) (first_key (req_uri (cl_request c)))")
  obtain h where h: "smap_lookup (g_handlers st) (if found then key else quoted ''/'') = Some (Some h)"
      "handleRequest env h (cl_request c) (g_statics st) = Inr (res, s')"
    using assms(5) by (auto simp: table_handler_def handler_for_def route split: option.splits)
  have uri: "req_uri (cl_request c) = path_text (cl_segments c)" by (simp add: cl_request_def)
  have ms: "table_messages env (g_handlers st) (cl_request c) (g_statics st) = handler_messages env h (cl_request c) (g_statics st)"
    using h(1) by (simp add: table_messages_def handler_for_def route)
  have "handler_task env found key (st\<lparr>ses_request := cl_request c, g_parser := p, g_logger := l\<rparr>) =
      Inr (res, st\<lparr>ses_request := cl_request c, g_parser := p,
        g_logger := log_messages (handler_messages env h (cl_request c) (g_statics st)) l, g_handlers := g_handlers st, g_statics := s'\<rparr>)" for l
    using handler_task_known [where st = "st\<lparr>ses_request := cl_request c, g_parser := p, g_logger := l\<rparr>"] h by simp
  from good_request_answers [OF assms(2) p(2) route this] p(1) show ?thesis unfolding ms uri by blast
qed

lemma read_header_lines_of_client:
  assumes "boost (env_boost env)" "collecting sofar st"
    "\<forall>(k, v) \<in> set hs. header_name k \<and> no_control v" "\<forall>h \<in> set hs. length (header_text h) < max_length"
  shows "read_events env accept (map header_text hs) st = Some (Inr (st\<lparr>http_body := sofar @ concat (map header_text hs)\<rparr>))"
  using assms(2-4)
proof (induction hs arbitrary: sofar st)
  case (Cons h hs)
  obtain k v where h: "h = (k, v)" by (cases h)
  let ?st = "st\<lparr>http_body := sofar @ header_text (k, v)\<rparr>"
  have "read_event env accept (header_text (k, v)) st = Some (Inr (True, ?st))"
    using Cons.prems h by (intro read_header_line [OF assms(1)]) auto
  moreover have "collecting (sofar @ header_text (k, v)) ?st" using Cons.prems(1) by (simp add: collecting_def)
  ultimately show ?case using Cons.IH [of "sofar @ header_text (k, v)" ?st] Cons.prems h by simp
qed (simp add: collecting_def)

lemma read_events_append:
  "read_events env accept (xs @ ys) st = bind_run (read_events env accept xs st) (read_events env accept ys)"
  by (induction xs arbitrary: st) (auto simp: bind_run_def split: option.splits sum.splits)

lemma read_last_line:
  assumes "collecting sofar st"
  shows "read_event env accept crlf st =
    bind_run (good_request env accept (sofar @ crlf)
        (st\<lparr>ses_data := crlf @ drop (length crlf) (ses_data st), request_start := False, http_body := sofar @ crlf\<rparr>))
      (\<lambda>(_, st'). Some (Inr (True, st')))"
proof -
  have "c_string (crlf @ drop (length crlf) (replicate max_length NUL)) = Inr crlf"
    by (rule c_string_chunk) (simp_all add: max_length_def)
  then show ?thesis
    using assms by (simp add: read_event_def handle_read_def long_string_handler_def complete_def collecting_def)
qed

text \<open>
  \<^bold>\<open>C10.\<close> A request without a body may also arrive line by line, as a person types it, at a session whose
  buffer is cleared: each line is collected, and after the empty line the request is answered just as if
  it had arrived in one piece, whatever its length.
\<close>

theorem session_serves_lines:
  assumes "boost (env_boost env)" "writes_some accept" "idle st"
    "client_request (cl_segments c) (cl_major c) (cl_minor c) (cl_headers c) (cl_body c)" "cl_body c = []"
    "list_all (\<lambda>l. length l < max_length) (cl_lines c)"
    "table_handler env (g_handlers st) (cl_request c) (g_statics st) = Inr (res, s')"
  shows "\<exists>st' ws. read_events env accept (cl_lines c) st = Some (Inr st') \<and>
    ses_sent st' = ses_sent st @ ws \<and> concat ws = response_head res @ res_body res \<and>
    idle st' \<and> g_handlers st' = g_handlers st \<and> g_statics st' = s'"
proof -
  let ?sofar = "cl_line c @ concat (map header_text (cl_headers c))"
  let ?st1 = "st\<lparr>request_start := True, http_body := cl_line c\<rparr>"
  let ?st2 = "?st1\<lparr>http_body := ?sofar\<rparr>"
  let ?st3 = "?st2\<lparr>ses_data := crlf @ drop (length crlf) (ses_data ?st2), request_start := False, http_body := ?sofar @ crlf\<rparr>"
  have st: "waiting st" "fresh (g_parser st)" using assms(3) by (simp_all add: idle_def)
  have len: "length (cl_line c) < max_length" "\<forall>h \<in> set (cl_headers c). length (header_text h) < max_length"
    using assms(6) by (auto simp: cl_lines_def list_all_iff)
  have hs: "\<forall>(k, v) \<in> set (cl_headers c). header_name k \<and> no_control v"
    using assms(4) by (simp add: client_request_def)
  have 1: "read_event env accept (cl_line c) st = Some (Inr (True, ?st1))" by (rule read_first_line [OF assms(1) st(1) len(1) assms(4)])
  have "collecting (cl_line c) ?st1" using st(1) by (simp add: collecting_def waiting_def)
  from read_header_lines_of_client [OF assms(1) this hs len(2)]
  have 2: "read_events env accept (map header_text (cl_headers c)) ?st1 = Some (Inr ?st2)" by simp
  have whole: "?sofar @ crlf = cl_text c" using concat_cl_lines [OF assms(5)] by (simp add: cl_lines_def)
  have parser: "fresh (g_parser ?st3)" and tbl: "table_handler env (g_handlers ?st3) (cl_request c) (g_statics ?st3) = Inr (res, s')"
    using st(2) assms(7) by simp_all
  obtain ws p where g: "fresh p" "concat ws = response_head res @ res_body res"
      "good_request env accept (cl_text c) ?st3 = Some (Inr (Dispatcher_ToString (res_code res),
        ?st3\<lparr>http_body := [], ses_request := reset_request (cl_request c), ses_data := replicate max_length NUL,
           ses_sent := ses_sent ?st3 @ ws, g_parser := p, g_handlers := g_handlers ?st3, g_statics := s',
           g_logger := request_logged (path_text (cl_segments c)) (table_messages env (g_handlers ?st3) (cl_request c) (g_statics ?st3))
             (res_code res) (g_logger ?st3)\<rparr>))"
    using good_table [OF assms(1,2) parser assms(4) tbl] by blast
  have "collecting ?sofar ?st2" using st(1) by (simp add: collecting_def waiting_def)
  from read_last_line [OF this, of env accept] have 3: "read_event env accept crlf ?st2 =
      bind_run (good_request env accept (cl_text c) ?st3) (\<lambda>(_, st'). Some (Inr (True, st')))"
    unfolding whole by simp
  show ?thesis
    unfolding cl_lines_def read_events.simps 1 bind_run_simps prod.case read_events_append 2 3 g(3)
    using g(1,2) by (simp add: idle_def waiting_def)
qed

theorem session_serves_lines_witness:
  "\<exists>st' ws. read_events demo_env (\<lambda>k n. n) (cl_lines (demo_client [''e'', ''hi''])) (demo_session [(quoted ''/e'', Some Echo_Obj)]) = Some (Inr st') \<and>
     ses_sent st' = ses_sent (demo_session [(quoted ''/e'', Some Echo_Obj)]) @ ws \<and>
     concat ws = response_head (plain_text_response ''hi'' sc_ok) @ res_body (plain_text_response ''hi'' sc_ok)"
proof -
  let ?st = "demo_session [(quoted ''/e'', Some Echo_Obj)]" and ?c = "demo_client [''e'', ''hi'']"
  let ?S = "table_handler demo_env (g_handlers ?st) (cl_request ?c) (g_statics ?st)"
  have c: "client_request (cl_segments ?c) (cl_major ?c) (cl_minor ?c) (cl_headers ?c) (cl_body ?c)" "cl_body ?c = []"
    "list_all (\<lambda>l. length l < max_length) (cl_lines ?c)" by code_simp+
  have "isl ?S = False" "fst (projr ?S) = plain_text_response ''hi'' sc_ok" by code_simp+
  then have "?S = Inr (plain_text_response ''hi'' sc_ok, snd (projr ?S))" by (metis isl_def prod.collapse sum.collapse(2))
  from session_serves_lines [OF demo_env_facts demo_session_idle c this] show ?thesis by blast
qed

end
