(* ===== verification/Session_Errors.thy ===== *)
theory Session_Errors
  imports Session_Serving
begin

text \<open>
  What a session does with other input: requests for no location, texts that are no requests, and
  texts that fill the buffer.
\<close>

section \<open>Requests for no location\<close>

lemma handler_task_null:
  assumes "smap_lookup (g_handlers st) (quoted ''/'') = None"
    "Error_handleRequest (ses_request st) (g_statics st) = Inr (res, s')"
  shows "handler_task env False key st =
    Inr (res, st\<lparr>g_handlers := smap_update (quoted ''/'') None (g_handlers st), g_statics := s', g_logger := log_messages [] (g_logger st)\<rparr>)"
  using assms by (simp add: handler_task_def Let_def smap_insert_def smap_lookup_update handleRequest_def handler_messages_def)

lemma good_request_null:
  assumes "Parse (env_boost env) (ses_request st) (g_parser st) request = Inr (r, rest, req, p)"
    "route (g_handlers st) (req_uri req) (first_key (req_uri req)) = (True, key)"
    "smap_lookup (g_handlers st) key = Some None"
  shows "good_request env accept request st = Some (Inl Undefined_Behaviour)"
  using assms by (simp add: good_request_def handler_task_def Let_def smap_insert_def)

text \<open>A request for a location whose handler is a null pointer.\<close>

lemma read_null:
  assumes "boost (env_boost env)" "idle st" "cl_ok c" "cl_segments c = [[]]" "smap_lookup (g_handlers st) (quoted ''/'') = Some None"
  shows "read_event env accept (cl_text c) st = Some (Inl Undefined_Behaviour)"
proof -
  have st: "open_for (length (cl_text c)) st" "fresh (g_parser st)" "behind (length (cl_text c)) st = []"
    using assms(2,3) waiting_open by (simp_all add: idle_def cl_ok_def)
  obtain p where p: "Parse (env_boost env) (ses_request st) (g_parser st) (cl_text c) = Inr (good, [], cl_request c, p)"
    using cl_text_parses [OF assms(1,3) st(2), of "ses_request st" "[]"] by auto
  have uri: "req_uri (cl_request c) = ''/''" by (simp add: cl_request_def assms(4) path_text_def)
  have r: "route (g_handlers st) ''/'' (first_key ''/'') = (True, quoted ''/'')"
    using assms(5) by (simp add: first_key_def route_here starts_with_def)
  let ?st = "st\<lparr>ses_data := cl_text c @ drop (length (cl_text c)) (ses_data st), http_body := cl_text c\<rparr>"
  have "good_request env accept (cl_text c) ?st = Some (Inl Undefined_Behaviour)"
    by (rule good_request_null [where r = good and rest = "[]" and req = "cl_request c" and p = p and key = "quoted ''/''"])
      (simp_all add: p uri r assms(5))
  then show ?thesis
    using read_good [OF st(1) cl_text_accepted(1) [OF assms(1,3)] refl] cl_text_accepted(2,3) [OF assms(1,3), of "[]"] by (simp add: st(3))
qed

text \<open>
  \<^bold>\<open>C35.\<close> A server with no handler for the root location answers a request for an unknown target with
  404, as intended, and breaks: the look-up has put a null pointer into the table, and the next request
  for the root calls a handler through it.
\<close>

theorem second_request_null_pointer:
  assumes "boost (env_boost env)" "writes_some accept" "idle st" "cl_ok c" "cl_ok root" "cl_segments root = [[]]"
    "\<forall>j \<le> length (cl_segments c). smap_lookup (g_handlers st) (quoted (path_text (take j (cl_segments c)))) = None"
    "smap_lookup (g_handlers st) (quoted ''/'') = None"
  shows "\<exists>st' ws res. read_event env accept (cl_text c) st = Some (Inr (True, st')) \<and> ses_sent st' = ses_sent st @ ws \<and>
    concat ws = response_head res @ res_body res \<and> res_code res = sc_not_found \<and>
    read_event env accept (cl_text root) st' = Some (Inl Undefined_Behaviour)"
proof -
  have segs: "segments_ok (cl_segments c)" using assms(4) by (simp add: cl_ok_def client_request_def)
  have route: "route (g_handlers st) (path_text (cl_segments c)) (first_key (path_text (cl_segments c))) = (False, quoted [])"
    using route_not_found [OF segs assms(7)] path_not_http by (simp add: first_key_def)
  obtain res s' where h: "Error_handleRequest (cl_request c) (g_statics st) = Inr (res, s')" "res_code res = sc_not_found"
    by (simp add: Error_handleRequest_def addRecord_def Let_def plain_text_response_def)
  have task: "handler_task env False (quoted []) st' = Inr (res, st'\<lparr>g_handlers := smap_update (quoted ''/'') None (g_handlers st), g_statics := s',
      g_logger := log_messages [] (g_logger st')\<rparr>)"
    if "g_handlers st' = g_handlers st" "g_statics st' = g_statics st" "ses_request st' = cl_request c" for st'
    using handler_task_null [of st' res s' env "quoted []"] that assms(8) h(1) by simp
  obtain st' ws where st': "read_event env accept (cl_text c) st = Some (Inr (True, st'))" "ses_sent st' = ses_sent st @ ws"
      "concat ws = response_head res @ res_body res" "idle st'" "g_handlers st' = smap_update (quoted ''/'') None (g_handlers st)"
    using read_client [OF assms(1,2) idle_open [OF assms(3,4), THEN conjunct1] idle_open [OF assms(3,4), THEN conjunct2] assms(4) route task] by blast
  show ?thesis using st' h(2) read_null [OF assms(1) st'(4) assms(5,6)] by (auto simp: smap_lookup_update)
qed

theorem second_request_null_pointer_witness:
  "\<exists>st' ws res. read_event demo_env (\<lambda>k n. n) (cl_text (demo_client [''x''])) (demo_session [(quoted ''/e'', Some Echo_Obj)]) = Some (Inr (True, st')) \<and>
    ses_sent st' = ses_sent (demo_session [(quoted ''/e'', Some Echo_Obj)]) @ ws \<and>
    concat ws = response_head res @ res_body res \<and> res_code res = sc_not_found \<and>
    read_event demo_env (\<lambda>k n. n) (cl_text (demo_client [[]])) st' = Some (Inl Undefined_Behaviour)"
proof (rule second_request_null_pointer [OF demo_env_facts demo_session_idle])
  show "cl_ok (demo_client [''x''])" "cl_ok (demo_client [[]])" by code_simp+
  show "cl_segments (demo_client [[]]) = [[]]" by (simp add: demo_client_def)
  let ?tbl = "g_handlers (demo_session [(quoted ''/e'', Some Echo_Obj)])"
  have "list_all (\<lambda>j. smap_lookup ?tbl (quoted (path_text (take j [''x'']))) = None) [0, 1]" by code_simp
  then show "\<forall>j \<le> length (cl_segments (demo_client [''x''])). smap_lookup ?tbl (quoted (path_text (take j (cl_segments (demo_client [''x'']))))) = None"
    by (auto simp: demo_client_def le_Suc_eq)
  show "smap_lookup ?tbl (quoted ''/'') = None" by code_simp
qed

section \<open>Texts that are no requests\<close>

definition bad_reply :: "string \<Rightarrow> string" where
  "bad_reply s = format_status ''400 Bad Request'' @ concat (map (\<lambda>(k, v). format_header k v)
     [(''Content-type'', ''text/plain''), (''Content-length'', to_string (length s)), (''Connection'', ''close'')]) @ crlf @ s"

lemma Echo_bad: "Echo_getResponse s False = Inr (bad_reply s)"
  by (simp add: Echo_getResponse_def bad_reply_def format_end_def)

lemma to_string_no_CR: "CR \<notin> set (to_string n)"
  using to_string_digits [of CR n] by (auto simp: isdigit_def)

lemma bad_reply_read:
  "read_response (bad_reply s) = Some (''HTTP/1.1 400 Bad Request'',
     [(''Content-type'', ''text/plain''), (''Content-length'', to_string (length s)), (''Connection'', ''close'')], s)"
proof -
  let ?hs = "[(''Content-type'', ''text/plain''), (''Content-length'', to_string (length s)), (''Connection'', ''close'')]"
  let ?l = "''HTTP/1.1 400 Bad Request''"
  let ?rest = "concat (map (\<lambda>(k, v). format_header k v) ?hs) @ CR # LF # s"
  have "list_all header_clean ?hs" by (simp add: header_clean_def to_string_no_CR)
  from read_headers_all [OF this, of s] have hs: "read_headers ?rest = Some (?hs, s)" .
  have b: "bad_reply s = ?l @ CR # LF # ?rest" unfolding bad_reply_def format_status_def by simp
  have "str_find crlf (?l @ CR # LF # ?rest) = int (length ?l)" by (intro str_find_crlf no_CR_no_crlf) simp
  then show ?thesis
    unfolding b read_response_def using hs by (simp add: Let_def del: concat.simps list.map)
qed

text \<open>What a rejected text leaves in the log.\<close>

definition rejection_logged :: "string \<Rightarrow> string \<Rightarrow> logger \<Rightarrow> logger" where
  "rejection_logged uri s l = log_reset (log_write sev_warning (''INVALID REQUEST: '' @ s) (setStatus ''400'' (setPath uri l)))"

lemma read_bad:
  assumes "\<not> request_start st" "http_body st = []" "c_string (chunk @ drop (length chunk) (ses_data st)) = Inr s"
    "check_request (env_boost env) s = Inr False" "\<not> check_requestLine (env_boost env) s" "filter_CRLF (env_boost env) s \<noteq> 0"
    "Parse (env_boost env) (ses_request st) (g_parser st) s = Inr (r, rest, req, p)"
  shows "read_event env accept chunk st = Some (Inr (True, st\<lparr>http_body := [], ses_request := reset_request req,
    ses_data := replicate max_length NUL, ses_sent := ses_sent st @ [bad_reply s], g_parser := p,
    g_logger := rejection_logged (req_uri req) s (g_logger st)\<rparr>))"
  using assms
  by (simp add: read_event_def handle_read_def long_string_handler_def after_bad_def bad_request_def Echo_handler_def Echo_bad
      send_response_def finish_request_def clear_data_def rejection_logged_def)

lemma waiting_reads:
  assumes "waiting st" "NUL \<notin> set chunk" "length chunk < max_length"
  shows "\<not> request_start st" "http_body st = []" "c_string (chunk @ drop (length chunk) (ses_data st)) = Inr chunk"
  using assms c_string_chunk by (simp_all add: waiting_def)

text \<open>
  \<^bold>\<open>C32.\<close> A text that is neither a request nor a request line nor blank is answered at once with status
  400 and a body that is the text itself, unless parsing it for the log is undefined; no handler runs,
  nothing is recorded, the log gets one line, a warning with the code 400 and the text, and the session
  waits for the next request.
\<close>

theorem session_rejects:
  assumes "waiting st" "NUL \<notin> set chunk" "length chunk < max_length" "check_request (env_boost env) chunk = Inr False"
    "\<not> check_requestLine (env_boost env) chunk" "filter_CRLF (env_boost env) chunk \<noteq> 0"
    "Parse (env_boost env) (ses_request st) (g_parser st) chunk = Inr (r, rest, req, p)"
  shows "\<exists>st' reply. read_event env accept chunk st = Some (Inr (True, st')) \<and> ses_sent st' = ses_sent st @ [reply] \<and>
    read_response reply = Some (''HTTP/1.1 400 Bad Request'',
      [(''Content-type'', ''text/plain''), (''Content-length'', to_string (length chunk)), (''Connection'', ''close'')], chunk) \<and>
    waiting st' \<and> g_handlers st' = g_handlers st \<and> g_statics st' = g_statics st \<and>
    g_logger st' = rejection_logged (req_uri req) chunk (g_logger st)"
  using read_bad [OF waiting_reads [OF assms(1-3)] assms(4-7), of accept] assms(1) bad_reply_read [of chunk] by (auto simp: waiting_def)

theorem session_rejects_witness:
  "\<exists>st' reply. read_event demo_env (\<lambda>k n. n) ''hello'' (demo_session []) = Some (Inr (True, st')) \<and>
     ses_sent st' = [reply] \<and> read_response reply = Some (''HTTP/1.1 400 Bad Request'',
       [(''Content-type'', ''text/plain''), (''Content-length'', ''5''), (''Connection'', ''close'')], ''hello'')"
proof -
  let ?P = "Parse (env_boost demo_env) (ses_request (demo_session [])) (g_parser (demo_session [])) ''hello''"
  have "isl ?P = False" by code_simp
  then obtain r rest req p where P: "?P = Inr (r, rest, req, p)" by (metis isl_def prod.collapse sum.collapse(2))
  have "waiting (demo_session [])" using demo_session_idle by (simp add: idle_def)
  moreover have "NUL \<notin> set ''hello''" "length ''hello'' < max_length" "check_request (env_boost demo_env) ''hello'' = Inr False"
    "\<not> check_requestLine (env_boost demo_env) ''hello''" "filter_CRLF (env_boost demo_env) ''hello'' \<noteq> 0" by code_simp+
  moreover have "to_string (length ''hello'') = ''5''" "ses_sent (demo_session []) = []" by code_simp+
  ultimately show ?thesis using session_rejects [OF _ _ _ _ _ _ P, of "\<lambda>k n. n"] by (simp, blast)
qed

subsection \<open>What is left of a rejected text\<close>

lemma method_names_suffix: "drop n (method_name m') = method_name m \<Longrightarrow> n < length (method_name m') \<Longrightarrow> n = 0"
proof -
  let ?ms = "[GET, POST, PUT, DELETE, HEAD, CONNECT, OPTIONS, TRACE, PATCH]"
  have "list_all (\<lambda>m'. list_all (\<lambda>m. list_all (\<lambda>n. drop n (method_name m') = method_name m \<longrightarrow> n = 0)
      [0..<length (method_name m')]) ?ms) ?ms" by code_simp
  moreover have "m \<in> set ?ms" "m' \<in> set ?ms" by (cases m, simp_all, cases m', simp_all)
  moreover have "n \<in> set [0..<k] \<longleftrightarrow> n < k" for k by simp
  ultimately show "drop n (method_name m') = method_name m \<Longrightarrow> n < length (method_name m') \<Longrightarrow> n = 0"
    unfolding list_all_iff by blast
qed

lemma getMethod_unknown:
  assumes "boost B" "\<And>m. map toupper (rp_method p) \<noteq> method_name m"
  shows "getMethod B p = PATCH"
  using assms(1) assms(2) [of GET] assms(2) [of POST] assms(2) [of PUT] assms(2) [of DELETE] assms(2) [of HEAD]
    assms(2) [of CONNECT] assms(2) [of OPTIONS] assms(2) [of TRACE]
  by (simp add: getMethod_def boost.to_upper_doc)

lemma replace_each_absent: "c \<notin> set s \<Longrightarrow> replace_each (c # pat) sub s = s"
  by (induction s) auto

lemma space_needed: "in_lang (Seq r (Seq (Cls q) t)) w \<Longrightarrow> \<exists>c \<in> set w. q c"
  by auto

lemma word_rejected:
  assumes "boost B" "w \<noteq> []" "\<forall>c \<in> set w. alpha c"
  shows "check_request B w = Inr False" "\<not> check_requestLine B w" "filter_CRLF B w \<noteq> 0"
proof -
  have CR: "CR \<notin> set w" using assms(3) alpha_token by blast
  then have "\<not> sublist crlf w" by (rule no_CR_no_crlf)
  then have "str_find crlf w = -1" by (simp add: crlf_absent)
  moreover have "\<not> check_requestLine B (w @ CR # [LF])"
    using assms(3) alpha_not_space by (intro word_no_request_line [OF assms(1)]) (auto simp: alpha_def isupper_def islower_def)
  ultimately show "check_request B w = Inr False" by (simp add: check_request_def)
  have "\<forall>c \<in> set w. \<not> isspace c" using assms(3) alpha_not_space by blast
  then have "\<not> in_lang request_line_pattern w" "\<not> in_lang absolute_path_pattern w"
    unfolding request_line_pattern_def absolute_path_pattern_def using space_needed by blast+
  then show "\<not> check_requestLine B w" using assms(1) by (simp add: check_requestLine_def matches_boost del: in_lang.simps)
  show "filter_CRLF B w \<noteq> 0"
    using assms(1,2) CR by (simp add: filter_CRLF_def boost.replace_all_doc replace_each_absent)
qed

lemma prefixed_method_unknown:
  assumes "w \<noteq> []"
  shows "map toupper (w @ method_name m) \<noteq> method_name m'"
proof
  assume eq: "map toupper (w @ method_name m) = method_name m'"
  then have "drop (length w) (method_name m') = method_name m"
    by (metis append_eq_conv_conj length_map map_append method_name_facts(3))
  moreover have "length w < length (method_name m')"
    using arg_cong [OF eq, of length] method_name_facts(1) [of m] by (cases "method_name m") auto
  ultimately show False using method_names_suffix assms by fastforce
qed

text \<open>The state in which a word leaves a parser that was in its initial state.\<close>

definition word_left :: "string \<Rightarrow> request_parser \<Rightarrow> bool" where
  "word_left w q = (\<exists>p. fresh p \<and> rp_run (p\<lparr>rp_result := undefined_result\<rparr>) w = Inl q)"

lemma Parse_after_word:
  assumes "boost B" "word_left w q" "w \<noteq> []" "\<forall>c \<in> set w. alpha c"
    "client_request (cl_segments c) (cl_major c) (cl_minor c) (cl_headers c) (cl_body c)"
  shows "\<exists>p'. fresh p' \<and> Parse B req q (cl_text c @ extra) = Inr (good, extra, (cl_request c)\<lparr>req_method := PATCH\<rparr>, p')"
proof -
  let ?n = "w @ method_name (cl_method c)"
  obtain p where run: "fresh p" "rp_run (p\<lparr>rp_result := undefined_result\<rparr>) w = Inl q" using assms(2) unfolding word_left_def by blast
  have tok: "token ?n"
    using method_name_facts(2) [of "cl_method c"] assms(3,4) alpha_token upper_alpha by (auto simp: token_def)
  have uri: "path_text (cl_segments c) \<noteq> []" using assms(5) by (cases "cl_segments c") (auto simp: client_request_def path_text_def)
  have hs: "headers_ok (cl_headers c)" using assms(5) header_name_clean by (fastforce simp: client_request_def headers_ok_def)
  have parse: "Parse B req p (w @ cl_text c @ extra) = Parse B req q (cl_text c @ extra)" by (rule Parse_undecided(2) [OF run(2)])
  have word: "w @ cl_text c @ extra =
      request_text ?n (path_text (cl_segments c)) (version_text [cl_major c] [cl_minor c]) (cl_headers c) (cl_body c) @ extra"
    by (simp add: cl_text_def client_text_def request_text_def)
  obtain q' where q': "Parse B req p (w @ cl_text c @ extra) = Inr (good, extra, write_request B q' req, Reset q')"
      "rp_method q' = ?n" "rp_uri q' = path_text (cl_segments c)" "rp_version q' = version_text [cl_major c] [cl_minor c]"
      "rp_headers q' = cl_headers c" "rp_body q' = cl_body c"
    using Parse_request_text [OF run(1) tok uri _ _ _ _ hs, of "[cl_major c]" "[cl_minor c]" "cl_body c" B req extra] assms(5) version_digits
    unfolding word by (auto simp: client_request_def)
  moreover have "getMethod B q' = PATCH"
    using prefixed_method_unknown [OF assms(3), of "cl_method c"] q'(2) by (intro getMethod_unknown [OF assms(1)]) simp
  ultimately show ?thesis using parse by (simp add: write_request_def getHeaderMap_def cl_request_def)
qed

lemma read_word:
  assumes "boost (env_boost env)" "waiting st" "fresh (g_parser st)" "w \<noteq> []" "\<forall>c \<in> set w. alpha c" "length w < max_length"
  shows "\<exists>q. word_left w q \<and> read_event env accept w st = Some (Inr (True, st\<lparr>http_body := [],
    ses_request := reset_request (ses_request st), ses_data := replicate max_length NUL, ses_sent := ses_sent st @ [bad_reply w],
    g_parser := q, g_logger := rejection_logged (req_uri (ses_request st)) w (g_logger st)\<rparr>))"
proof -
  have w: "token w" "NUL \<notin> set w" using assms(4,5) alpha_token by (auto simp: token_def)
  obtain q where run: "rp_run ((g_parser st)\<lparr>rp_result := undefined_result\<rparr>) w = Inl q"
    using run_token [of "(g_parser st)\<lparr>rp_result := undefined_result\<rparr>" w] assms(3) w(1) by auto
  then have "word_left w q" using assms(3) unfolding word_left_def by blast
  with read_bad [OF waiting_reads [OF assms(2) w(2) assms(6)] word_rejected [OF assms(1,4,5)] Parse_undecided(1) [OF run], of accept]
  show ?thesis by blast
qed

lemma read_after_word:
  assumes "boost (env_boost env)" "writes_some accept" "open_for (length (cl_text c)) st" "word_left w (g_parser st)" "w \<noteq> []"
    "\<forall>c \<in> set w. alpha c" "cl_ok c" "table_handler env (g_handlers st) ((cl_request c)\<lparr>req_method := PATCH\<rparr>) (g_statics st) = Inr (res, s')"
  shows "\<exists>st' ws. read_event env accept (cl_text c) st = Some (Inr (True, st')) \<and> ses_sent st' = ses_sent st @ ws \<and>
    concat ws = response_head res @ res_body res \<and> idle st' \<and> g_handlers st' = g_handlers st \<and> g_statics st' = s'"
proof -
  let ?r = "(cl_request c)\<lparr>req_method := PATCH\<rparr>" and ?extra = "behind (length (cl_text c)) st"
  obtain p where p: "fresh p" "Parse (env_boost env) (ses_request st) (g_parser st) (cl_text c @ ?extra) = Inr (good, ?extra, ?r, p)"
    using Parse_after_word [OF assms(1,4-6)] assms(7) unfolding cl_ok_def by blast
  from read_parsed [OF assms(1-3,7) p(2) assms(8)] p(1) show ?thesis by (auto simp: idle_def)
qed

section \<open>The first text of a connection\<close>

lemma c_string_garbage:
  assumes "NUL \<notin> set chunk" "NUL \<notin> set left" "length old = length chunk"
  shows "c_string (chunk @ drop (length chunk) (old @ left @ NUL # tail)) = Inr (chunk @ left)"
proof -
  have "drop (length chunk) (old @ left @ NUL # tail) = left @ NUL # tail" using assms(3) by simp
  moreover have "takeWhile (\<lambda>c. c \<noteq> NUL) ((chunk @ left) @ NUL # tail) = chunk @ left" using assms(1,2) by (intro takeWhile_to) simp
  ultimately show ?thesis by (simp only: c_string_def) simp
qed

text \<open>
  \<^bold>\<open>C34.\<close> The buffer of a new session is not initialised: the memory found behind the first text, up to
  the next null, is taken for part of it. When the first text is a word, and the memory continues it with
  letters, these are sent back to the client in the body of the response.
\<close>

theorem first_reply_shows_memory:
  assumes "boost (env_boost env)" "w \<noteq> []" "\<forall>c \<in> set (w @ left). alpha c" "length old = length w" "fresh p"
  shows "\<exists>st' reply. read_event env accept w (new_session (old @ left @ NUL # tail) req p tbl s l) = Some (Inr (True, st')) \<and>
    ses_sent st' = [reply] \<and> read_response reply = Some (''HTTP/1.1 400 Bad Request'',
      [(''Content-type'', ''text/plain''), (''Content-length'', to_string (length w + length left)), (''Connection'', ''close'')], w @ left)"
proof -
  let ?st = "new_session (old @ left @ NUL # tail) req p tbl s l"
  have new: "\<not> request_start ?st" "http_body ?st = []" "ses_data ?st = old @ left @ NUL # tail" "ses_request ?st = req"
    "g_parser ?st = p" "ses_sent ?st = []" by (simp_all add: new_session_def)
  have letters: "\<forall>c \<in> set (w @ left). c \<noteq> NUL" using assms(3) alpha_token by blast
  then have c: "c_string (w @ drop (length w) (ses_data ?st)) = Inr (w @ left)"
    unfolding new using assms(4) by (intro c_string_garbage) auto
  have ne: "w @ left \<noteq> []" using assms(2) by simp
  have tok: "token (w @ left)" using ne assms(3) alpha_token by (auto simp: token_def)
  obtain q where run: "rp_run (p\<lparr>rp_result := undefined_result\<rparr>) (w @ left) = Inl q"
    using run_token [of "p\<lparr>rp_result := undefined_result\<rparr>" "w @ left"] assms(5) tok by auto
  have "Parse (env_boost env) (ses_request ?st) (g_parser ?st) (w @ left) = Inr (undefined_result, [], req, q)"
    unfolding new by (rule Parse_undecided(1) [OF run])
  from read_bad [OF new(1,2) c word_rejected [OF assms(1) ne assms(3)] this, of accept]
  show ?thesis using bad_reply_read [of "w @ left"] new(6) by auto
qed

theorem first_reply_shows_memory_witness:
  "\<exists>st' reply. read_event demo_env (\<lambda>k n. n) ''hi'' (new_session (''xx'' @ ''secret'' @ NUL # replicate 1015 NUL) (ask [] [])
       (new_parser 0) [] initial_statics initial_logger) = Some (Inr (True, st')) \<and>
     ses_sent st' = [reply] \<and> read_response reply = Some (''HTTP/1.1 400 Bad Request'',
       [(''Content-type'', ''text/plain''), (''Content-length'', to_string (length ''hi'' + length ''secret'')), (''Connection'', ''close'')],
       ''hi'' @ ''secret'')"
proof (rule first_reply_shows_memory [OF demo_env_facts(1)])
  show "''hi'' \<noteq> []" "\<forall>c \<in> set (''hi'' @ ''secret''). alpha c" "length ''xx'' = length ''hi''" by code_simp+
  show "fresh (new_parser 0)" by simp
qed

section \<open>The bound of the buffer\<close>

text \<open>
  \<^bold>\<open>C36.\<close> Between requests the session can take 1023 bytes at a time, and not the 1024 it asks the socket
  for: text that fills the buffer leaves no room for the null that ends the string, and reading it is
  undefined; a shorter text is taken over exactly.
\<close>

theorem read_bound:
  assumes "waiting st" "length chunk \<le> max_length" "NUL \<notin> set chunk"
  shows "c_string (chunk @ drop (length chunk) (ses_data st)) = (if length chunk < 1024 then Inr chunk else Inl Undefined_Behaviour) \<and>
    (read_event env accept chunk st = Some (Inl Undefined_Behaviour) \<or> length chunk < 1024)"
proof (cases "length chunk < max_length")
  case True
  with c_string_chunk [OF assms(3)] assms(1) show ?thesis by (simp add: waiting_def max_length_def)
next
  case False
  then have "chunk @ drop (length chunk) (ses_data st) = chunk" using assms(1,2) by (simp add: waiting_def)
  moreover have "c_string chunk = Inl Undefined_Behaviour" using assms(3) by (simp add: c_string_def)
  ultimately show ?thesis using False by (simp add: read_event_def handle_read_def max_length_def)
qed

theorem read_bound_witness:
  "read_event demo_env (\<lambda>k n. n) (replicate 1024 (CHR ''x'')) (demo_session []) = Some (Inl Undefined_Behaviour)"
  using read_bound [of "demo_session []" "replicate 1024 (CHR ''x'')" demo_env "\<lambda>k n. n"] demo_session_idle
  by (simp add: idle_def max_length_def)

end
