(* ===== verification/Event_Loop.thy ===== *)
theory Event_Loop
  imports Session_Errors
begin

text \<open>
  The running server: \<^verbatim>\<open>server::start_accept\<close> and \<^verbatim>\<open>server::handle_accept\<close>, and \<^verbatim>\<open>io_service::run\<close> as a
  step relation. Every session has one asynchronous operation pending, a read or a write; a step is the
  completion of one of them or of the pending accept, in any order. The sessions share the request
  parser, the table, the statics of the handlers and the log. The environment (clock,
  files, network) may be a different one at every step, only the Boost library stays.
\<close>

section \<open>The state\<close>

datatype pending = Reading | Writing

record server_state =
  sv_next :: session
  sv_sessions :: "(pending \<times> session) list"
  sv_parser :: request_parser
  sv_handlers :: handler_table
  sv_statics :: statics
  sv_logger :: logger

text \<open>A session with the globals as they are now, and the state after one of its callbacks.\<close>

definition load :: "server_state \<Rightarrow> session \<Rightarrow> session" where
  "load sv st = st\<lparr>g_parser := sv_parser sv, g_handlers := sv_handlers sv, g_statics := sv_statics sv, g_logger := sv_logger sv\<rparr>"

definition store :: "nat \<Rightarrow> pending \<Rightarrow> session \<Rightarrow> server_state \<Rightarrow> server_state" where
  "store i io st sv = sv\<lparr>sv_sessions := (sv_sessions sv)[i := (io, st)], sv_parser := g_parser st,
     sv_handlers := g_handlers st, sv_statics := g_statics st, sv_logger := g_logger st\<rparr>"

section \<open>Accepting\<close>

text \<open>A new session object; the characters of its buffer and its request are not initialised.\<close>

definition start_accept :: "string \<Rightarrow> request \<Rightarrow> server_state \<Rightarrow> server_state" where
  "start_accept garbage req sv =
     sv\<lparr>sv_next := new_session garbage req (sv_parser sv) (sv_handlers sv) (sv_statics sv) (sv_logger sv)\<rparr>"

text \<open>The accept has failed with an error, or the client has an address.\<close>

definition handle_accept :: "error_code + string \<Rightarrow> string \<Rightarrow> request \<Rightarrow> server_state \<Rightarrow> server_state" where
  "handle_accept client garbage req sv =
     start_accept garbage req
       (case client of
          Inr ip \<Rightarrow>
            sv\<lparr>sv_logger := setIp ip (log_write sev_info (''ACCEPT CLIENT '' @ ip @ '' CONNECTION SUCCESSFULLY'') (sv_logger sv)),
               sv_sessions := sv_sessions sv @ [(Reading, sv_next sv)]\<rparr>
        | Inl e \<Rightarrow>
            sv\<lparr>sv_logger := resetIp (log_write (error_severity e) (if ec_eof e then ''Client has disconnected.'' else ec_message e)
               (sv_logger sv))\<rparr>)"

section \<open>Steps\<close>

datatype event =
    Accepted "error_code + string"
  | Received nat string
  | Read_Failed nat error_code
  | Written nat
  | Write_Failed nat error_code

text \<open>
  Which operation is pending after a read was handled: a response has been handed to the socket, or the
  next read has been started.
\<close>

definition after_read :: "session \<Rightarrow> session \<Rightarrow> pending" where
  "after_read st st' = (if ses_sent st' = ses_sent st then Reading else Writing)"

inductive server_step :: "boost_lib \<Rightarrow> server_state \<Rightarrow> event \<Rightarrow> server_state \<Rightarrow> bool" for B where
  accepted: "length garbage = max_length \<Longrightarrow>
    server_step B sv (Accepted client) (handle_accept client garbage req sv)"
| received: "i < length (sv_sessions sv) \<Longrightarrow> sv_sessions sv ! i = (Reading, st) \<Longrightarrow> \<not> ses_deleted st \<Longrightarrow>
    length chunk \<le> max_length \<Longrightarrow> env_boost env = B \<Longrightarrow>
    read_event env accept chunk (load sv st) = Some (Inr (True, st')) \<Longrightarrow>
    server_step B sv (Received i chunk) (store i (after_read st st') st' sv)"
| read_failed: "i < length (sv_sessions sv) \<Longrightarrow> sv_sessions sv ! i = (Reading, st) \<Longrightarrow> \<not> ses_deleted st \<Longrightarrow>
    handle_read env accept (Some e) n (load sv st) = Some (Inr (False, st')) \<Longrightarrow>
    server_step B sv (Read_Failed i e) (store i Reading st' sv)"
| written: "i < length (sv_sessions sv) \<Longrightarrow> sv_sessions sv ! i = (Writing, st) \<Longrightarrow> \<not> ses_deleted st \<Longrightarrow>
    handle_write None (load sv st) = (True, st') \<Longrightarrow>
    server_step B sv (Written i) (store i Reading st' sv)"
| write_failed: "i < length (sv_sessions sv) \<Longrightarrow> sv_sessions sv ! i = (Writing, st) \<Longrightarrow> \<not> ses_deleted st \<Longrightarrow>
    handle_write (Some e) (load sv st) = (False, st') \<Longrightarrow>
    server_step B sv (Write_Failed i e) (store i Writing st' sv)"

inductive server_run :: "boost_lib \<Rightarrow> server_state \<Rightarrow> event list \<Rightarrow> server_state \<Rightarrow> bool" for B where
  none: "server_run B sv [] sv"
| more: "server_step B sv ev sv1 \<Longrightarrow> server_run B sv1 evs sv2 \<Longrightarrow> server_run B sv (ev # evs) sv2"

inductive_cases server_stepE [elim]: "server_step B sv ev sv'"
inductive_simps server_run_simps: "server_run B sv [] sv'" "server_run B sv (ev # evs) sv'"

text \<open>The server after \<^verbatim>\<open>main\<close> has called \<^verbatim>\<open>start_accept\<close>.\<close>

definition started_server :: "string \<Rightarrow> request \<Rightarrow> 64 word \<Rightarrow> handler_table \<Rightarrow> statics \<Rightarrow> logger \<Rightarrow> server_state" where
  "started_server garbage req junk tbl s l =
     start_accept garbage req
       \<lparr>sv_next = new_session garbage req (new_parser junk) tbl s l, sv_sessions = [], sv_parser = new_parser junk,
        sv_handlers = tbl, sv_statics = s, sv_logger = l\<rparr>"

section \<open>What one callback may change\<close>

text \<open>The table keeps its entries; at most a null pointer for the root is added.\<close>

definition table_kept :: "handler_table \<Rightarrow> handler_table \<Rightarrow> bool" where
  "table_kept t t' = (t' = t \<or> t' = smap_insert (quoted ''/'') None t)"

definition globals_kept :: "session \<Rightarrow> session \<Rightarrow> bool" where
  "globals_kept st st' =
     (table_kept (g_handlers st) (g_handlers st') \<and> prefix (st_status (g_statics st)) (st_status (g_statics st')) \<and>
      (statics_wf (g_statics st) \<longrightarrow> statics_wf (g_statics st')))"

definition session_ok :: "session \<Rightarrow> bool" where
  "session_ok st = (length (ses_data st) = max_length \<and> (\<not> request_start st \<longrightarrow> http_body st = []))"

lemma globals_kept_refl [simp]: "globals_kept st st"
  by (simp add: globals_kept_def table_kept_def)

lemma handler_task_kept:
  assumes "handler_task env found key st = Inr (res, st')"
  shows "\<exists>tbl s ms. st' = st\<lparr>g_handlers := tbl, g_statics := s, g_logger := log_messages ms (g_logger st)\<rparr> \<and> globals_kept st st'"
proof -
  let ?k = "if found then key else quoted ''/''"
  let ?tbl = "smap_insert ?k None (g_handlers st)"
  obtain h s where h: "handleRequest env h (ses_request st) (g_statics st) = Inr (res, s)"
      "st' = st\<lparr>g_handlers := ?tbl, g_statics := s, g_logger := log_messages (handler_messages env h (ses_request st) (g_statics st)) (g_logger st)\<rparr>"
      "found \<Longrightarrow> smap_lookup ?tbl key = Some (Some h)"
    using assms by (auto simp: handler_task_def Let_def bind_out_Inr split: if_splits option.splits)
  have "?tbl = g_handlers st" if found
    using h(3) [OF that] that smap_lookup_update [of key None "g_handlers st"] by (auto simp: smap_insert_def)
  then have "table_kept (g_handlers st) ?tbl" by (cases found) (simp_all add: table_kept_def)
  then show ?thesis
    using h any_h.handle_log [OF h(1)] any_h.handle_wf [OF _ h(1)] by (auto simp: globals_kept_def)
qed

lemma dispatch_nonempty: "dispatch accept res = Some ws \<Longrightarrow> ws \<noteq> []"
  by (auto simp: dispatch_def split: if_splits)

text \<open>
  What a callback that answers leaves in the log: records with the address that was set before it, of
  which exactly one has the code of a response; path and code are reset.
\<close>

definition logged_once :: "logger \<Rightarrow> logger \<Rightarrow> bool" where
  "logged_once l l' =
     (log_clientIp l' = log_clientIp l \<and> log_reqPath l' = [] \<and> log_resCode l' = [] \<and>
      (\<exists>rs. log_records l' = log_records l @ rs \<and> (\<forall>r \<in> set rs. lr_clientIp r = log_clientIp l) \<and>
         (log_resCode l = [] \<longrightarrow> length (filter (\<lambda>r. lr_resCode r \<noteq> []) rs) = 1)))"

lemma request_logged_once: "logged_once l (request_logged uri ms code l)"
  by (auto simp: logged_once_def request_logged_def log_messages_records log_write_def logger_defs filter_empty_conv)

lemma rejection_logged_once: "logged_once l (rejection_logged uri s l)"
  by (auto simp: logged_once_def rejection_logged_def log_write_def logger_defs)

text \<open>What is left after a response has been handed over.\<close>

definition answered :: "session \<Rightarrow> session \<Rightarrow> bool" where
  "answered st st' =
     (request_start st' = request_start st \<and> http_body st' = [] \<and> ses_data st' = replicate max_length NUL \<and>
      ses_deleted st' = ses_deleted st \<and> (\<exists>ws. ses_sent st' = ses_sent st @ ws \<and> ws \<noteq> []) \<and> globals_kept st st' \<and>
      logged_once (g_logger st) (g_logger st'))"

lemma good_request_answered:
  assumes "good_request env accept request st = Some (Inr (m, st'))"
  shows "answered st st'"
proof -
  obtain r rest req p where p: "Parse (env_boost env) (ses_request st) (g_parser st) request = Inr (r, rest, req, p)"
    using assms by (auto simp: good_request_def split: sum.splits)
  let ?st1 = "st\<lparr>ses_request := req, g_parser := p, g_logger := setPath (req_uri req) (g_logger st)\<rparr>"
  obtain found key where route: "route (g_handlers st) (req_uri req) (first_key (req_uri req)) = (found, key)"
    by (cases "route (g_handlers st) (req_uri req) (first_key (req_uri req))")
  obtain res st2 where t: "handler_task env found key ?st1 = Inr (res, st2)"
    using assms p route by (auto simp: good_request_def split: sum.splits)
  obtain ws where d: "dispatch accept res = Some ws"
    using assms p route t by (auto simp: good_request_def dispatch_response_def bind_run_def split: option.splits)
  obtain tbl s ms where st2: "st2 = ?st1\<lparr>g_handlers := tbl, g_statics := s, g_logger := log_messages ms (g_logger ?st1)\<rparr>" "globals_kept ?st1 st2"
    using handler_task_kept [OF t] by blast
  have "st' = finish_request ((clear_data st2)\<lparr>ses_sent := ses_sent st2 @ ws,
      g_logger := log_reset (log_write sev_info ''VALID REQUEST'' (setStatus (to_string (code_number (res_code res))) (g_logger st2)))\<rparr>)"
    using assms p route t d by (simp add: good_request_def dispatch_response_def clear_data_def)
  moreover from this st2(1) have "g_logger st' = request_logged (req_uri req) ms (res_code res) (g_logger st)"
    by (simp add: finish_request_def clear_data_def request_logged_def)
  ultimately show ?thesis
    using st2 dispatch_nonempty [OF d] request_logged_once by (simp add: answered_def finish_request_def clear_data_def globals_kept_def)
qed

lemma after_bad_answered:
  assumes "after_bad env st = Some (Inr (b, st'))"
  shows "b \<and> answered st st'"
  using assms rejection_logged_once [unfolded rejection_logged_def]
  by (auto simp: after_bad_def bad_request_def Echo_handler_def bind_out_Inr Echo_bad Let_def answered_def finish_request_def
      send_response_def clear_data_def globals_kept_def table_kept_def)

text \<open>
  The two ways a read can be handled: the text is collected and the next read started, or a response
  has been handed over and the session waits for the next request.
\<close>

definition collected :: "session \<Rightarrow> session \<Rightarrow> bool" where
  "collected st st' = (ses_sent st' = ses_sent st \<and> globals_kept st st' \<and> g_logger st' = g_logger st \<and> ses_deleted st' = ses_deleted st \<and> session_ok st')"

definition replied :: "session \<Rightarrow> session \<Rightarrow> bool" where
  "replied st st' = ((\<exists>ws. ses_sent st' = ses_sent st @ ws \<and> ws \<noteq> []) \<and> globals_kept st st' \<and>
     logged_once (g_logger st) (g_logger st') \<and> ses_deleted st' = ses_deleted st \<and> waiting st')"

lemma answered_replied:
  assumes "answered st1 st'" "\<not> request_start st1" "ses_sent st1 = ses_sent st" "ses_deleted st1 = ses_deleted st"
    "g_handlers st1 = g_handlers st" "g_statics st1 = g_statics st" "g_logger st1 = g_logger st"
  shows "replied st st'"
  using assms by (auto simp: answered_def replied_def waiting_def globals_kept_def)

lemma handle_request_part_kept:
  assumes "handle_request_part env request st = Some (Inr (b, st'))" "length (ses_data st) = max_length"
  shows "b \<and> (collected st st' \<or> replied st st')"
proof -
  let ?st = "st\<lparr>request_start := True, http_body := http_body st @ request\<rparr>"
  have "after_bad env (?st\<lparr>request_start := False\<rparr>) = Some (Inr (b, st')) \<or> b \<and> st' = clear_data ?st"
    using assms(1) by (auto simp: handle_request_part_def handle_write_def Let_def split: if_splits sum.splits)
  then show ?thesis
  proof
    assume bad: "after_bad env (?st\<lparr>request_start := False\<rparr>) = Some (Inr (b, st'))"
    from after_bad_answered [OF bad] show ?thesis by (auto intro: answered_replied)
  qed (simp add: collected_def clear_data_def session_ok_def globals_kept_def table_kept_def)
qed

lemma read_event_kept:
  assumes "read_event env accept chunk st = Some (Inr (b, st'))" "session_ok st" "length chunk \<le> max_length"
  shows "b \<and> (collected st st' \<or> replied st st')"
proof -
  let ?st = "st\<lparr>ses_data := chunk @ drop (length chunk) (ses_data st)\<rparr>"
  have len: "length (ses_data ?st) = max_length" using assms(2,3) by (simp add: session_ok_def)
  have move: "collected ?st st' \<or> replied ?st st' \<Longrightarrow> collected st st' \<or> replied st st'"
    by (simp add: collected_def replied_def globals_kept_def)
  obtain request where r: "c_string (ses_data ?st) = Inr request"
    using assms(1) by (auto simp: read_event_def handle_read_def split: sum.splits)
  obtain handled st1 where l: "long_string_handler env accept request (length chunk) ?st = Some (Inr (handled, st1))"
    using assms(1) r by (auto simp: read_event_def handle_read_def bind_run_def split: option.splits sum.splits)
  show ?thesis
  proof (cases handled)
    case True
    then obtain m where "\<not> request_start ?st" "good_request env accept (http_body ?st @ request) (?st\<lparr>http_body := http_body ?st @ request\<rparr>) = Some (Inr (m, st'))" "b"
      using assms(1) r l
      by (auto simp: read_event_def handle_read_def long_string_handler_def bind_run_def Let_def split: if_splits option.splits sum.splits bool.splits)
    then show ?thesis using answered_replied [OF good_request_answered] by simp
  next
    case False
    then have st1: "st1 = ?st"
      using l by (auto simp: long_string_handler_def bind_run_def Let_def split: if_splits option.splits sum.splits bool.splits)
    consider (complete) m where "b" "good_request env accept (http_body ?st @ request)
          (?st\<lparr>request_start := False, http_body := http_body ?st @ request\<rparr>) = Some (Inr (m, st'))"
      | (part) "handle_request_part env request ?st = Some (Inr (b, st'))"
      | (blank) "b" "st' = ?st"
      | (bad) "\<not> request_start ?st" "after_bad env (?st\<lparr>http_body := http_body ?st @ request\<rparr>) = Some (Inr (b, st'))"
      using assms(1) r l False st1
      by (auto simp: read_event_def handle_read_def bind_run_def Let_def handle_write_def split: if_splits option.splits sum.splits bool.splits)
    then show ?thesis
    proof cases
      case complete
      then show ?thesis using answered_replied [OF good_request_answered] by simp
    next
      case part
      from handle_request_part_kept [OF this len] move show ?thesis by blast
    next
      case blank
      then show ?thesis using assms(2) len by (simp add: collected_def globals_kept_def table_kept_def session_ok_def)
    next
      case bad
      from after_bad_answered [OF this(2)] bad(1) show ?thesis by (auto intro: answered_replied)
    qed
  qed
qed

section \<open>The invariant of the running server\<close>

text \<open>
  A session that waits for its write to finish has nothing collected and a cleared buffer; the buffer
  has its size; text is only kept while a request is being collected. The records are those of the
  start and more, the table is that of the start but for a null pointer at the root.
\<close>

definition server_inv :: "handler_table \<Rightarrow> string list \<Rightarrow> server_state \<Rightarrow> bool" where
  "server_inv tbl log sv =
     (session_ok (sv_next sv) \<and> \<not> ses_deleted (sv_next sv) \<and>
      (\<forall>(io, st) \<in> set (sv_sessions sv). session_ok st \<and> (io = Writing \<longrightarrow> waiting st)) \<and>
      statics_wf (sv_statics sv) \<and> prefix log (st_status (sv_statics sv)) \<and> table_kept tbl (sv_handlers sv))"

lemma waiting_ok: "waiting st \<Longrightarrow> session_ok st"
  by (simp add: waiting_def session_ok_def)

lemma load_ok [simp]: "session_ok (load sv st) = session_ok st" "waiting (load sv st) = waiting st"
  by (simp_all add: load_def session_ok_def waiting_def)

lemma load_sel [simp]:
  "g_handlers (load sv st) = sv_handlers sv" "g_statics (load sv st) = sv_statics sv" "g_parser (load sv st) = sv_parser sv"
  "g_logger (load sv st) = sv_logger sv" "ses_sent (load sv st) = ses_sent st" "ses_deleted (load sv st) = ses_deleted st"
  by (simp_all add: load_def)

lemma new_session_ok: "length garbage = max_length \<Longrightarrow> session_ok (new_session garbage req p tbl s l)"
  by (simp add: new_session_def session_ok_def)

lemma table_kept_trans: "table_kept t t1 \<Longrightarrow> table_kept t1 t2 \<Longrightarrow> table_kept t t2"
  by (auto simp: table_kept_def smap_insert_def smap_lookup_update)

lemma store_inv:
  assumes "server_inv tbl log sv" "globals_kept (load sv st) st'" "session_ok st'" "io = Writing \<Longrightarrow> waiting st'"
  shows "server_inv tbl log (store i io st' sv)"
proof -
  have "set ((sv_sessions sv)[i := (io, st')]) \<subseteq> insert (io, st') (set (sv_sessions sv))" by (rule set_update_subset_insert)
  then show ?thesis
    using assms table_kept_trans [of tbl "sv_handlers sv" "g_handlers st'"]
    by (fastforce simp: server_inv_def store_def globals_kept_def intro: prefix_order.trans)
qed

lemma session_of_inv:
  "server_inv tbl log sv \<Longrightarrow> i < length (sv_sessions sv) \<Longrightarrow> sv_sessions sv ! i = (io, st) \<Longrightarrow>
   session_ok st \<and> (io = Writing \<longrightarrow> waiting st)"
  unfolding server_inv_def by (metis (mono_tags, lifting) case_prodD nth_mem)

lemma server_step_inv: "server_step B sv ev sv' \<Longrightarrow> server_inv tbl log sv \<Longrightarrow> server_inv tbl log sv'"
proof (induction rule: server_step.induct)
  case (accepted garbage sv client req)
  then show ?case
    by (auto simp: server_inv_def handle_accept_def start_accept_def new_session_ok new_session_def session_ok_def split: sum.splits)
next
  case (received i sv st chunk env accept st')
  have "session_ok (load sv st)" using session_of_inv [OF received.prems received.hyps(1,2)] by simp
  from read_event_kept [OF received.hyps(6) this received.hyps(4)]
  have "globals_kept (load sv st) st' \<and> session_ok st' \<and> (after_read st st' = Writing \<longrightarrow> waiting st')"
    by (auto simp: collected_def replied_def after_read_def waiting_ok)
  with received.prems show ?case by (intro store_inv [where st = st]) auto
next
  case (read_failed i sv st env accept n st')
  then show ?case
    using session_of_inv [OF read_failed.prems read_failed.hyps(1,2)]
    by (intro store_inv [where st = st]) (auto simp: handle_read_def delete_session_def globals_kept_def table_kept_def session_ok_def load_def)
next
  case (written i sv st st')
  then show ?case
    using session_of_inv [OF written.prems written.hyps(1,2)]
    by (intro store_inv [where st = st]) (auto simp: handle_write_def)
next
  case (write_failed i sv st st')
  then show ?case
    using session_of_inv [OF write_failed.prems write_failed.hyps(1,2)]
    by (intro store_inv [where st = st]) (auto simp: handle_write_def delete_session_def globals_kept_def table_kept_def session_ok_def waiting_def load_def)
qed

lemma server_run_inv: "server_run B sv evs sv' \<Longrightarrow> server_inv tbl log sv \<Longrightarrow> server_inv tbl log sv'"
  by (induction rule: server_run.induct) (auto intro: server_step_inv)

lemma started_server_inv:
  "length garbage = max_length \<Longrightarrow> statics_wf s \<Longrightarrow> server_inv tbl (st_status s) (started_server garbage req junk tbl s l)"
  by (simp add: server_inv_def started_server_def start_accept_def new_session_ok table_kept_def)
    (simp add: new_session_def)

text \<open>
  \<^bold>\<open>C9.\<close> Whatever clients send and in whatever order operations complete or fail, every state the
  running server reaches is well formed: a session with a write pending has nothing collected and a
  cleared buffer, no session keeps text outside a request, the buffers have their size; the records made
  so far are never lost or changed, the cache and the roots stay maps, and every location of the table
  keeps its handler.
\<close>

theorem running_server_invariant:
  assumes "length garbage = max_length" "statics_wf s" "server_run B (started_server garbage req junk tbl s l) evs sv"
  shows "server_inv tbl (st_status s) sv \<and> (\<forall>k h. smap_lookup tbl k = Some h \<longrightarrow> smap_lookup (sv_handlers sv) k = Some h)"
proof -
  from server_run_inv [OF assms(3) started_server_inv [OF assms(1,2)]] have inv: "server_inv tbl (st_status s) sv" .
  then have "table_kept tbl (sv_handlers sv)" by (simp add: server_inv_def)
  with inv show ?thesis by (auto simp: table_kept_def smap_lookup_insert)
qed

section \<open>Requests of several clients\<close>

text \<open>Requests answered one after the other, each in the environment of its time.\<close>

fun serve_in :: "handler_table \<Rightarrow> (environment \<times> request) list \<Rightarrow> statics \<Rightarrow> (response list \<times> statics) outcome" where
  "serve_in tbl [] s = Inr ([], s)"
| "serve_in tbl ((env, r) # ers) s =
     bind_out (table_handler env tbl r s) (\<lambda>(res, s').
       bind_out (serve_in tbl ers s') (\<lambda>(ress, s''). Inr (res # ress, s'')))"

text \<open>
  All sessions are open and have no part of a request, no request is being logged, and the parser is in its
  initial state. Any of the sessions may still have a write pending, and the buffer of a session that
  has not received anything yet may hold anything.
\<close>

definition session_open :: "session \<Rightarrow> bool" where
  "session_open st = (\<not> request_start st \<and> http_body st = [] \<and> length (ses_data st) = max_length \<and> \<not> ses_deleted st)"

definition sessions_open :: "server_state \<Rightarrow> bool" where
  "sessions_open sv = (\<forall>(io, st) \<in> set (sv_sessions sv). session_open st)"

definition server_ready :: "server_state \<Rightarrow> bool" where
  "server_ready sv = (fresh (sv_parser sv) \<and> log_resCode (sv_logger sv) = [] \<and> sessions_open sv)"

record job =
  job_session :: nat
  job_env :: environment
  job_accept :: "nat \<Rightarrow> nat \<Rightarrow> nat"
  job_client :: client

text \<open>
  A request of a client of the server: in the form the session recognises, and the buffer of the session
  has a null behind the bytes of the request.
\<close>

definition job_ok :: "boost_lib \<Rightarrow> server_state \<Rightarrow> job \<Rightarrow> bool" where
  "job_ok B sv j =
     (job_session j < length (sv_sessions sv) \<and> env_boost (job_env j) = B \<and> writes_some (job_accept j) \<and> cl_ok (job_client j) \<and>
      NUL \<in> set (drop (length (cl_text (job_client j))) (ses_data (snd (sv_sessions sv ! job_session j)))))"

text \<open>
  A schedule: requests arrive and writes complete in any order, as long as a session is sent a request only
  when it is reading, and a write completes only where one is pending.
\<close>

datatype action = Ask job | Done nat

fun action_event :: "action \<Rightarrow> event" where
  "action_event (Ask j) = Received (job_session j) (cl_text (job_client j))"
| "action_event (Done i) = Written i"

fun asked :: "action list \<Rightarrow> job list" where
  "asked [] = []"
| "asked (Ask j # acts) = j # asked acts"
| "asked (Done i # acts) = asked acts"

fun schedule_ok :: "pending list \<Rightarrow> action list \<Rightarrow> bool" where
  "schedule_ok ios [] = True"
| "schedule_ok ios (Ask j # acts) =
     (job_session j < length ios \<and> ios ! job_session j = Reading \<and> schedule_ok (ios[job_session j := Writing]) acts)"
| "schedule_ok ios (Done i # acts) = (i < length ios \<and> ios ! i = Writing \<and> schedule_ok (ios[i := Reading]) acts)"

definition sent_to :: "nat \<Rightarrow> server_state \<Rightarrow> string" where
  "sent_to i sv = concat (ses_sent (snd (sv_sessions sv ! i)))"

lemma response_head_nonempty: "response_head res \<noteq> []"
  by (cases "res_code res") (simp_all add: response_head_def)

lemma session_at:
  "sessions_open sv \<Longrightarrow> i < length (sv_sessions sv) \<Longrightarrow> \<exists>st. sv_sessions sv ! i = (map fst (sv_sessions sv) ! i, st) \<and> session_open st"
  unfolding sessions_open_def by (metis (mono_tags, lifting) case_prodD nth_map nth_mem prod.collapse)

lemma session_open_facts: "session_open st \<Longrightarrow> session_ok (load sv st)" "waiting st \<Longrightarrow> \<not> ses_deleted st \<Longrightarrow> session_open st"
  by (simp_all add: session_open_def session_ok_def waiting_def load_def)

text \<open>Putting back a session that is open keeps the server ready, and leaves the other sessions alone.\<close>

lemma store_open:
  assumes "sessions_open sv" "session_open st"
  shows "sessions_open (store i io st sv)"
proof -
  have "set ((sv_sessions sv)[i := (io, st)]) \<subseteq> insert (io, st) (set (sv_sessions sv))" by (rule set_update_subset_insert)
  with assms show ?thesis by (auto simp: sessions_open_def store_def)
qed

lemma store_ready:
  assumes "sessions_open sv" "session_open st" "fresh (g_parser st)" "log_resCode (g_logger st) = []"
  shows "server_ready (store i io st sv)"
  using assms store_open [OF assms(1,2)] by (simp add: server_ready_def) (simp add: store_def)

lemma store_globals:
  "sv_parser (store i io st sv) = g_parser st" "sv_handlers (store i io st sv) = g_handlers st"
  "sv_statics (store i io st sv) = g_statics st" "sv_logger (store i io st sv) = g_logger st"
  "length (sv_sessions (store i io st sv)) = length (sv_sessions sv)"
  "map fst (sv_sessions (store i io st sv)) = (map fst (sv_sessions sv))[i := io]"
  by (simp_all add: store_def map_update)

lemma store_sent: "i < length (sv_sessions sv) \<Longrightarrow> k < length (sv_sessions sv) \<Longrightarrow>
   sent_to k (store i io st sv) = (if i = k then concat (ses_sent st) else sent_to k sv)"
  by (simp add: sent_to_def store_def)

lemma store_job_ok:
  assumes "job_ok B sv j" "ses_data st = ses_data (snd (sv_sessions sv ! i)) \<or> ses_data st = replicate max_length NUL"
  shows "job_ok B (store i io st sv) j"
proof -
  have "length (cl_text (job_client j)) < max_length" using assms(1) by (simp add: job_ok_def cl_ok_def)
  then have "NUL \<in> set (drop (length (cl_text (job_client j))) (replicate max_length NUL))" by simp
  with assms show ?thesis by (cases "i = job_session j") (auto simp: job_ok_def store_def)
qed

text \<open>A request that the session answers when it arrives, as a step of the server.\<close>

lemma received_answer:
  assumes "session_open st" "job_ok B sv j" "sv_sessions sv ! job_session j = (Reading, st)"
    "read_event (job_env j) (job_accept j) (cl_text (job_client j)) (load sv st) = Some (Inr (True, st'))"
    "ses_sent st' = ses_sent st @ ws" "concat ws = response_head res @ res_body res"
  shows "server_step B sv (action_event (Ask j)) (store (job_session j) Writing st' sv)"
    "concat (ses_sent st') = sent_to (job_session j) sv @ response_head res @ res_body res" "\<not> ses_deleted st'"
proof -
  let ?i = "job_session j" and ?c = "job_client j"
  have j: "?i < length (sv_sessions sv)" "env_boost (job_env j) = B" "length (cl_text ?c) \<le> max_length"
    using assms(2) by (simp_all add: job_ok_def cl_ok_def)
  have del: "\<not> ses_deleted st" using assms(1) by (simp add: session_open_def)
  from read_event_kept [OF assms(4) session_open_facts(1) [OF assms(1)] j(3)] del show "\<not> ses_deleted st'"
    by (auto simp: collected_def replied_def)
  have "ws \<noteq> []" using assms(6) response_head_nonempty by fastforce
  then have io: "after_read st st' = Writing" using assms(5) by (simp add: after_read_def)
  from server_step.received [OF j(1) assms(3) del j(3,2) assms(4)]
  show "server_step B sv (action_event (Ask j)) (store ?i Writing st' sv)" by (simp add: io)
  show "concat (ses_sent st') = sent_to ?i sv @ response_head res @ res_body res" using assms(3,5,6) by (simp add: sent_to_def)
qed

lemma job_facts:
  assumes "sessions_open sv" "job_ok B sv j" "map fst (sv_sessions sv) ! job_session j = Reading"
  obtains st where "sv_sessions sv ! job_session j = (Reading, st)" "session_open st" "open_for (length (cl_text (job_client j))) (load sv st)"
    "env_boost (job_env j) = B" "writes_some (job_accept j)" "cl_ok (job_client j)" "job_session j < length (sv_sessions sv)"
proof -
  have "job_session j < length (sv_sessions sv)" using assms(2) by (simp add: job_ok_def)
  from session_at [OF assms(1) this] assms(3) obtain st where st: "sv_sessions sv ! job_session j = (Reading, st)" "session_open st" by auto
  with assms(2) have "open_for (length (cl_text (job_client j))) (load sv st)"
    by (simp add: open_for_def job_ok_def session_open_def load_def)
  with st assms(2) that show ?thesis by (simp add: job_ok_def)
qed

lemma ask_step:
  assumes "boost B" "server_ready sv" "job_ok B sv j" "map fst (sv_sessions sv) ! job_session j = Reading"
    "table_handler (job_env j) (sv_handlers sv) (cl_request (job_client j)) (sv_statics sv) = Inr (res, s')"
  shows "\<exists>st'. server_step B sv (action_event (Ask j)) (store (job_session j) Writing st' sv) \<and>
    concat (ses_sent st') = sent_to (job_session j) sv @ response_head res @ res_body res \<and> idle st' \<and> \<not> ses_deleted st' \<and>
    g_handlers st' = sv_handlers sv \<and> g_statics st' = s' \<and>
    g_logger st' = request_logged (path_text (cl_segments (job_client j)))
      (table_messages (job_env j) (sv_handlers sv) (cl_request (job_client j)) (sv_statics sv)) (res_code res) (sv_logger sv)"
proof -
  let ?c = "job_client j"
  have ready: "sessions_open sv" "fresh (sv_parser sv)" using assms(2) by (simp_all add: server_ready_def)
  obtain st where st: "sv_sessions sv ! job_session j = (Reading, st)" "session_open st" "open_for (length (cl_text ?c)) (load sv st)"
      "env_boost (job_env j) = B" "writes_some (job_accept j)" "cl_ok ?c"
    using job_facts [OF ready(1) assms(3,4)] by metis
  obtain st' ws where r: "read_event (job_env j) (job_accept j) (cl_text ?c) (load sv st) = Some (Inr (True, st'))"
      "ses_sent st' = ses_sent st @ ws" "concat ws = response_head res @ res_body res"
      "idle st'" "g_handlers st' = sv_handlers sv" "g_statics st' = s'"
      "g_logger st' = request_logged (path_text (cl_segments ?c)) (table_messages (job_env j) (sv_handlers sv) (cl_request ?c) (sv_statics sv))
        (res_code res) (sv_logger sv)"
    using read_table [of "job_env j" "job_accept j" ?c "load sv st" res s'] assms(1,5) st(3-6) ready(2) by auto
  from received_answer [OF st(2) assms(3) st(1) r(1-3)] r(4-7) show ?thesis by blast
qed

lemma done_step:
  assumes "sessions_open sv" "i < length (sv_sessions sv)" "map fst (sv_sessions sv) ! i = Writing"
  shows "\<exists>st. server_step B sv (Written i) (store i Reading st sv) \<and> session_open st \<and> concat (ses_sent st) = sent_to i sv \<and>
    ses_data st = ses_data (snd (sv_sessions sv ! i)) \<and>
    g_parser st = sv_parser sv \<and> g_handlers st = sv_handlers sv \<and> g_statics st = sv_statics sv \<and> g_logger st = sv_logger sv"
proof -
  obtain st where st: "sv_sessions sv ! i = (Writing, st)" "session_open st" using session_at [OF assms(1,2)] assms(3) by auto
  have "\<not> ses_deleted st" using st(2) by (simp add: session_open_def)
  from server_step.written [OF assms(2) st(1) this, of "load sv st"] st show ?thesis
    by (intro exI [of _ "load sv st"]) (auto simp: handle_write_def sent_to_def session_open_def load_def)
qed

lemma server_run_append: "server_run B sv xs sv1 \<Longrightarrow> server_run B sv1 ys sv2 \<Longrightarrow> server_run B sv (xs @ ys) sv2"
  by (induction rule: server_run.induct) (auto intro: server_run.intros)

text \<open>What a schedule does to the server, given the responses of the handlers in the order of arrival.\<close>

definition responses_to :: "nat \<Rightarrow> job list \<Rightarrow> response list \<Rightarrow> response list" where
  "responses_to i jobs ress = map snd (filter (\<lambda>(j, res). job_session j = i) (zip jobs ress))"

definition jobs_done :: "server_state \<Rightarrow> job list \<Rightarrow> response list \<Rightarrow> statics \<Rightarrow> server_state \<Rightarrow> bool" where
  "jobs_done sv jobs ress s' sv' =
     (server_ready sv' \<and> sv_handlers sv' = sv_handlers sv \<and> sv_statics sv' = s' \<and> length (sv_sessions sv') = length (sv_sessions sv) \<and>
      (\<forall>i < length (sv_sessions sv). sent_to i sv' = sent_to i sv @
         concat (map (\<lambda>res. response_head res @ res_body res) (responses_to i jobs ress))) \<and>
      log_clientIp (sv_logger sv') = log_clientIp (sv_logger sv) \<and>
      metrics (sv_logger sv') = metrics (sv_logger sv) @ map (\<lambda>(j, res). request_record (log_clientIp (sv_logger sv))
        (path_text (cl_segments (job_client j))) (res_code res)) (zip jobs ress))"

lemma jobs_done_trans:
  "jobs_done sv jobs ress s1 sv1 \<Longrightarrow> jobs_done sv1 jobs' ress' s2 sv2 \<Longrightarrow> length jobs = length ress \<Longrightarrow>
   jobs_done sv (jobs @ jobs') (ress @ ress') s2 sv2"
  by (simp add: jobs_done_def responses_to_def)

lemma ask_done:
  assumes "boost B" "server_ready sv" "job_ok B sv j" "map fst (sv_sessions sv) ! job_session j = Reading"
    "table_handler (job_env j) (sv_handlers sv) (cl_request (job_client j)) (sv_statics sv) = Inr (res, s')"
  shows "\<exists>sv'. server_step B sv (action_event (Ask j)) sv' \<and> jobs_done sv [j] [res] s' sv' \<and>
    map fst (sv_sessions sv') = (map fst (sv_sessions sv))[job_session j := Writing] \<and> (\<forall>j'. job_ok B sv j' \<longrightarrow> job_ok B sv' j')"
proof -
  let ?i = "job_session j"
  obtain st' where st': "server_step B sv (action_event (Ask j)) (store ?i Writing st' sv)"
      "concat (ses_sent st') = sent_to ?i sv @ response_head res @ res_body res" "idle st'" "\<not> ses_deleted st'"
      "g_handlers st' = sv_handlers sv" "g_statics st' = s'"
      "g_logger st' = request_logged (path_text (cl_segments (job_client j)))
        (table_messages (job_env j) (sv_handlers sv) (cl_request (job_client j)) (sv_statics sv)) (res_code res) (sv_logger sv)"
    using ask_step [OF assms] by (elim exE conjE) (rule that)
  have i: "?i < length (sv_sessions sv)" using assms(3) by (simp add: job_ok_def)
  have quiet: "log_resCode (sv_logger sv) = []" using assms(2) by (simp add: server_ready_def)
  have w: "waiting st'" "fresh (g_parser st')" using st'(3) by (simp_all add: idle_def)
  have "server_ready (store ?i Writing st' sv)"
    using store_ready [OF _ session_open_facts(2) [OF w(1) st'(4)] w(2)] assms(2) st'(7) by (simp add: request_logged_metrics(2) server_ready_def)
  moreover have "sent_to k (store ?i Writing st' sv) = sent_to k sv @
      concat (map (\<lambda>res. response_head res @ res_body res) (responses_to k [j] [res]))" if "k < length (sv_sessions sv)" for k
    using store_sent [OF i that] st'(2) by (simp add: responses_to_def)
  ultimately have "jobs_done sv [j] [res] s' (store ?i Writing st' sv)"
    using st'(5-7) quiet unfolding jobs_done_def by (simp add: store_def request_logged_metrics)
  moreover have "map fst (sv_sessions (store ?i Writing st' sv)) = (map fst (sv_sessions sv))[?i := Writing]"
    by (simp add: store_def map_update)
  moreover have "job_ok B (store ?i Writing st' sv) j'" if "job_ok B sv j'" for j'
    using store_job_ok [OF that] w(1) by (simp add: waiting_def)
  ultimately show ?thesis using st'(1) by blast
qed

lemma done_done:
  assumes "server_ready sv" "i < length (sv_sessions sv)" "map fst (sv_sessions sv) ! i = Writing"
  shows "\<exists>sv'. server_step B sv (Written i) sv' \<and> jobs_done sv [] [] (sv_statics sv) sv' \<and>
    map fst (sv_sessions sv') = (map fst (sv_sessions sv))[i := Reading] \<and> (\<forall>j'. job_ok B sv j' \<longrightarrow> job_ok B sv' j')"
proof -
  have op: "sessions_open sv" using assms(1) by (simp add: server_ready_def)
  obtain st where st: "server_step B sv (Written i) (store i Reading st sv)" "session_open st" "concat (ses_sent st) = sent_to i sv"
      "ses_data st = ses_data (snd (sv_sessions sv ! i))"
      "g_parser st = sv_parser sv" "g_handlers st = sv_handlers sv" "g_statics st = sv_statics sv" "g_logger st = sv_logger sv"
    using done_step [OF op assms(2,3), of B] by (elim exE conjE) (rule that)
  have "server_ready (store i Reading st sv)"
    using store_ready [OF _ st(2)] assms(1) st(5,8) by (simp add: server_ready_def)
  moreover have "sent_to k (store i Reading st sv) = sent_to k sv" if "k < length (sv_sessions sv)" for k
    using store_sent [OF assms(2) that] st(3) by simp
  ultimately have "jobs_done sv [] [] (sv_statics sv) (store i Reading st sv)"
    using st(6-8) unfolding jobs_done_def by (simp add: store_def responses_to_def)
  moreover have "map fst (sv_sessions (store i Reading st sv)) = (map fst (sv_sessions sv))[i := Reading]"
    by (simp add: store_def map_update)
  ultimately show ?thesis using st(1) store_job_ok [OF _ disjI1 [OF st(4)]] by blast
qed

lemma schedule_served:
  assumes "boost B" "server_ready sv" "schedule_ok (map fst (sv_sessions sv)) acts" "list_all (job_ok B sv) (asked acts)"
    "serve_in (sv_handlers sv) (map (\<lambda>j. (job_env j, cl_request (job_client j))) (asked acts)) (sv_statics sv) = Inr (ress, s')"
  shows "\<exists>sv'. server_run B sv (map action_event acts) sv' \<and> jobs_done sv (asked acts) ress s' sv'"
  using assms(2-5)
proof (induction acts arbitrary: sv ress)
  case Nil
  then show ?case by (auto intro!: exI [of _ sv] server_run.none simp: jobs_done_def responses_to_def)
next
  case (Cons act acts)
  show ?case
  proof (cases act)
    case (Ask j)
    obtain res s1 ress1 where h: "table_handler (job_env j) (sv_handlers sv) (cl_request (job_client j)) (sv_statics sv) = Inr (res, s1)"
        "serve_in (sv_handlers sv) (map (\<lambda>j. (job_env j, cl_request (job_client j))) (asked acts)) s1 = Inr (ress1, s')" "ress = res # ress1"
      using Cons.prems(4) Ask by (auto simp: bind_out_Inr)
    have ok: "job_ok B sv j" "map fst (sv_sessions sv) ! job_session j = Reading" using Cons.prems(2,3) Ask by simp_all
    obtain sv1 where 1: "server_step B sv (action_event act) sv1" "jobs_done sv [j] [res] s1 sv1"
        "map fst (sv_sessions sv1) = (map fst (sv_sessions sv))[job_session j := Writing]" "\<forall>j'. job_ok B sv j' \<longrightarrow> job_ok B sv1 j'"
      using ask_done [OF assms(1) Cons.prems(1) ok h(1)] Ask by blast
    from 1(2) have g: "server_ready sv1" "sv_handlers sv1 = sv_handlers sv" "sv_statics sv1 = s1" by (simp_all add: jobs_done_def)
    have "schedule_ok (map fst (sv_sessions sv1)) acts" using Cons.prems(2) Ask 1(3) by simp
    moreover have "list_all (job_ok B sv1) (asked acts)" using Cons.prems(3) Ask 1(4) by (simp add: list_all_iff)
    ultimately obtain sv2 where 2: "server_run B sv1 (map action_event acts) sv2" "jobs_done sv1 (asked acts) ress1 s' sv2"
      using Cons.IH [of sv1 ress1] g h(2) by auto
    with jobs_done_trans [OF 1(2) 2(2)] 1(1) Ask h(3) show ?thesis by (auto intro: server_run.more)
  next
    case (Done i)
    obtain sv1 where 1: "server_step B sv (action_event act) sv1" "jobs_done sv [] [] (sv_statics sv) sv1"
        "map fst (sv_sessions sv1) = (map fst (sv_sessions sv))[i := Reading]" "\<forall>j'. job_ok B sv j' \<longrightarrow> job_ok B sv1 j'"
      using done_done [OF Cons.prems(1), of i B] Cons.prems(2) Done by auto
    from 1(2) have g: "server_ready sv1" "sv_handlers sv1 = sv_handlers sv" "sv_statics sv1 = sv_statics sv" by (simp_all add: jobs_done_def)
    have "schedule_ok (map fst (sv_sessions sv1)) acts" using Cons.prems(2) Done 1(3) by simp
    moreover have "list_all (job_ok B sv1) (asked acts)" using Cons.prems(3) Done 1(4) by (simp add: list_all_iff)
    ultimately obtain sv2 where 2: "server_run B sv1 (map action_event acts) sv2" "jobs_done sv1 (asked acts) ress s' sv2"
      using Cons.IH [of sv1 ress] g Cons.prems(4) Done by auto
    with jobs_done_trans [OF 1(2) 2(2)] 1(1) Done show ?thesis by (auto intro: server_run.more)
  qed
qed

text \<open>
  \<^bold>\<open>C2.\<close> Requests of the clients with open sessions are answered as by one sequence of handler calls in the
  order of arrival, however their arrival and the completion of the writes interleave: a request may arrive while
  the answers to any other clients are still being written, only a session that is itself writing is sent
  none. Every client is sent exactly the responses to its own requests, in order, and the records and
  caches are those the whole sequence leaves. The requests are in the form the session recognises, of at
  most 1023 bytes in one piece, and no handler faults on them; a session that has received nothing yet
  may have any buffer with a null behind the bytes of the request.
\<close>

theorem interleaved_requests_served:
  assumes "boost B" "server_ready sv" "schedule_ok (map fst (sv_sessions sv)) acts" "list_all (job_ok B sv) (asked acts)"
    "serve_in (sv_handlers sv) (map (\<lambda>j. (job_env j, cl_request (job_client j))) (asked acts)) (sv_statics sv) = Inr (ress, s')"
  shows "\<exists>sv'. server_run B sv (map action_event acts) sv' \<and> server_ready sv' \<and> sv_handlers sv' = sv_handlers sv \<and>
    sv_statics sv' = s' \<and> length (sv_sessions sv') = length (sv_sessions sv) \<and>
    (\<forall>i < length (sv_sessions sv). sent_to i sv' = sent_to i sv @
       concat (map (\<lambda>res. response_head res @ res_body res) (responses_to i (asked acts) ress)))"
  using schedule_served [OF assms] by (auto simp: jobs_done_def)

text \<open>A server with two clients, for examples.\<close>

definition zero_server :: "handler_table \<Rightarrow> server_state" where
  "zero_server tbl = started_server (replicate max_length NUL) (ask [] []) 0 tbl initial_statics
     initial_logger"

definition two_clients :: "handler_table \<Rightarrow> server_state" where
  "two_clients tbl = handle_accept (Inr ''10.0.0.2'') (replicate max_length NUL) (ask [] [])
     (handle_accept (Inr ''10.0.0.1'') (replicate max_length NUL) (ask [] []) (zero_server tbl))"

lemma two_clients_run:
  "server_run B (zero_server tbl) [Accepted (Inr ''10.0.0.1''), Accepted (Inr ''10.0.0.2'')] (two_clients tbl)"
  unfolding two_clients_def
  by (rule server_run.more [OF server_step.accepted server_run.more [OF server_step.accepted server_run.none]]) simp_all

lemma two_clients_sessions:
  "sv_sessions (two_clients tbl) = [(Reading, sv_next (zero_server tbl)), (Reading, sv_next (handle_accept (Inr ''10.0.0.1'')
     (replicate max_length NUL) (ask [] []) (zero_server tbl)))]"
  by (simp add: two_clients_def handle_accept_def start_accept_def zero_server_def started_server_def)

lemma two_clients_globals: "sv_handlers (two_clients tbl) = tbl" "sv_statics (two_clients tbl) = initial_statics"
  by (simp_all add: two_clients_def handle_accept_def start_accept_def zero_server_def started_server_def)

lemma two_clients_sent: "i < 2 \<Longrightarrow> sent_to i (two_clients tbl) = []"
  by (auto simp: sent_to_def two_clients_sessions less_2_cases_iff handle_accept_def start_accept_def zero_server_def
      started_server_def new_session_def)

lemma two_clients_ready: "server_ready (two_clients tbl)"
  unfolding server_ready_def sessions_open_def two_clients_sessions
  by (simp add: two_clients_def handle_accept_def start_accept_def zero_server_def started_server_def new_session_def session_open_def
      initial_logger_def log_write_def setIp_def)

theorem running_server_invariant_witness:
  "server_inv [(quoted ''/h'', Some Health_Obj)] [] (two_clients [(quoted ''/h'', Some Health_Obj)])"
  using running_server_invariant [OF _ initial_statics_wf two_clients_run [unfolded zero_server_def]]
  by (simp add: initial_statics_def)

definition demo_job :: "nat \<Rightarrow> string list \<Rightarrow> job" where
  "demo_job i segs = \<lparr>job_session = i, job_env = demo_env, job_accept = (\<lambda>k n. n), job_client = demo_client segs\<rparr>"

definition demo_table :: handler_table where
  "demo_table = [(quoted ''/e'', Some Echo_Obj), (quoted ''/h'', Some Health_Obj)]"

text \<open>Both clients ask before either answer has been written; the first one asks again later.\<close>

abbreviation demo_acts :: "action list" where
  "demo_acts \<equiv> [Ask (demo_job 0 [''e'', ''a'']), Ask (demo_job 1 [''h'']), Done 0, Ask (demo_job 0 [''e'', ''b'']), Done 1, Done 0]"

abbreviation demo_answers :: "response list" where
  "demo_answers \<equiv> [plain_text_response ''a'' sc_ok, plain_text_response ''OK'' sc_ok, plain_text_response ''b'' sc_ok]"

lemma two_clients_data: "i < 2 \<Longrightarrow> ses_data (snd (sv_sessions (two_clients tbl) ! i)) = replicate max_length NUL"
  by (auto simp: two_clients_sessions less_2_cases_iff handle_accept_def start_accept_def zero_server_def
      started_server_def new_session_def)

lemma demo_job_ok: "i < 2 \<Longrightarrow> cl_ok (demo_client segs) \<Longrightarrow> job_ok boost_ref (two_clients tbl) (demo_job i segs)"
  by (simp add: job_ok_def demo_job_def two_clients_data demo_env_facts(2) cl_ok_def)
    (simp add: two_clients_sessions demo_env_def)

lemma demo_acts_ok:
  "schedule_ok (map fst (sv_sessions (two_clients tbl))) demo_acts" "list_all (job_ok boost_ref (two_clients tbl)) (asked demo_acts)"
proof -
  have "list_all (\<lambda>segs. cl_ok (demo_client segs)) [[''e'', ''a''], [''h''], [''e'', ''b'']]" by code_simp
  then show "list_all (job_ok boost_ref (two_clients tbl)) (asked demo_acts)" by (simp add: demo_job_ok)
  show "schedule_ok (map fst (sv_sessions (two_clients tbl))) demo_acts" by (simp add: two_clients_sessions demo_job_def)
qed

lemma demo_acts_answered:
  "\<exists>s'. serve_in (sv_handlers (two_clients demo_table)) (map (\<lambda>j. (job_env j, cl_request (job_client j))) (asked demo_acts))
     (sv_statics (two_clients demo_table)) = Inr (demo_answers, s')"
proof -
  let ?S = "serve_in demo_table
    [(demo_env, cl_request (demo_client [''e'', ''a''])), (demo_env, cl_request (demo_client [''h''])),
     (demo_env, cl_request (demo_client [''e'', ''b'']))] initial_statics"
  have "isl ?S = False" "fst (projr ?S) = demo_answers" by code_simp+
  then have "?S = Inr (demo_answers, snd (projr ?S))" by (metis isl_def prod.collapse sum.collapse(2))
  then show ?thesis unfolding two_clients_globals by (simp only: asked.simps demo_job_def list.map job.select_convs) blast
qed

theorem interleaved_requests_served_witness:
  "\<exists>sv'. server_run boost_ref (two_clients demo_table)
       [Received 0 (cl_text (demo_client [''e'', ''a''])), Received 1 (cl_text (demo_client [''h''])), Written 0,
        Received 0 (cl_text (demo_client [''e'', ''b''])), Written 1, Written 0] sv' \<and>
     sent_to 0 sv' = (response_head (plain_text_response ''a'' sc_ok) @ ''a'') @ (response_head (plain_text_response ''b'' sc_ok) @ ''b'') \<and>
     sent_to 1 sv' = response_head (plain_text_response ''OK'' sc_ok) @ ''OK''"
proof -
  let ?sv = "two_clients demo_table"
  obtain s' where S: "serve_in (sv_handlers ?sv) (map (\<lambda>j. (job_env j, cl_request (job_client j))) (asked demo_acts)) (sv_statics ?sv) =
      Inr (demo_answers, s')" using demo_acts_answered by blast
  obtain sv' where sv': "server_run boost_ref ?sv (map action_event demo_acts) sv'"
      "\<forall>i < length (sv_sessions ?sv). sent_to i sv' = sent_to i ?sv @
       concat (map (\<lambda>res. response_head res @ res_body res) (responses_to i (asked demo_acts) demo_answers))"
    using interleaved_requests_served [OF boost_ref_documented two_clients_ready demo_acts_ok S] by blast
  have b: "res_body (plain_text_response t c) = t" for t c by (simp add: plain_text_response_def)
  have "sent_to 0 ?sv = []" "sent_to 1 ?sv = []" "length (sv_sessions ?sv) = 2" by (simp_all add: two_clients_sent two_clients_sessions)
  with sv'(2) [rule_format, of 0] sv'(2) [rule_format, of 1]
  have "sent_to 0 sv' = (response_head (plain_text_response ''a'' sc_ok) @ ''a'') @ (response_head (plain_text_response ''b'' sc_ok) @ ''b'')"
    "sent_to 1 sv' = response_head (plain_text_response ''OK'' sc_ok) @ ''OK''" by (simp_all add: demo_job_def responses_to_def b)
  with sv'(1) show ?thesis by (auto simp: demo_job_def)
qed

section \<open>A rejected word and the next request\<close>

text \<open>A session that waits answers a word with 400, and leaves the shared parser in the middle of a method name.\<close>

lemma word_step:
  fixes env :: environment
  assumes "boost B" "env_boost env = B" "i < length (sv_sessions sv)" "sv_sessions sv ! i = (Reading, st)" "waiting st" "\<not> ses_deleted st"
    "fresh (sv_parser sv)" "w \<noteq> []" "\<forall>c \<in> set w. alpha c" "length w < max_length"
  shows "\<exists>st'. server_step B sv (Received i w) (store i Writing st' sv) \<and> waiting st' \<and> \<not> ses_deleted st' \<and>
    concat (ses_sent st') = sent_to i sv @ bad_reply w \<and> word_left w (g_parser st') \<and>
    g_handlers st' = sv_handlers sv \<and> g_statics st' = sv_statics sv"
proof -
  let ?st = "load sv st"
  obtain q where q: "word_left w q" "read_event env (\<lambda>k n. n) w ?st = Some (Inr (True, ?st\<lparr>http_body := [],
      ses_request := reset_request (ses_request ?st), ses_data := replicate max_length NUL, ses_sent := ses_sent ?st @ [bad_reply w],
      g_parser := q, g_logger := rejection_logged (req_uri (ses_request ?st)) w (g_logger ?st)\<rparr>))" (is "_ = Some (Inr (True, ?st'))")
    using read_word [of env ?st w "\<lambda>k n. n"] assms by auto
  have "after_read st ?st' = Writing" by (simp add: after_read_def)
  with server_step.received [OF assms(3,4,6) _ assms(2) q(2)] assms(10) have "server_step B sv (Received i w) (store i Writing ?st' sv)" by simp
  moreover have "waiting ?st'" "concat (ses_sent ?st') = sent_to i sv @ bad_reply w"
    using assms(4,5) by (simp_all add: waiting_def sent_to_def load_def)
  ultimately show ?thesis using q(1) assms(6) by (intro exI [of _ ?st']) simp
qed

lemma patch_step:
  assumes "boost B" "sessions_open sv" "job_ok B sv j" "map fst (sv_sessions sv) ! job_session j = Reading"
    "word_left w (sv_parser sv)" "w \<noteq> []" "\<forall>c \<in> set w. alpha c"
    "table_handler (job_env j) (sv_handlers sv) ((cl_request (job_client j))\<lparr>req_method := PATCH\<rparr>) (sv_statics sv) = Inr (res, s')"
  shows "\<exists>st'. server_step B sv (action_event (Ask j)) (store (job_session j) Writing st' sv) \<and>
    concat (ses_sent st') = sent_to (job_session j) sv @ response_head res @ res_body res \<and> g_statics st' = s'"
proof -
  let ?c = "job_client j"
  obtain st where st: "sv_sessions sv ! job_session j = (Reading, st)" "session_open st" "open_for (length (cl_text ?c)) (load sv st)"
      "env_boost (job_env j) = B" "writes_some (job_accept j)" "cl_ok ?c"
    using job_facts [OF assms(2-4)] by metis
  obtain st' ws where r: "read_event (job_env j) (job_accept j) (cl_text ?c) (load sv st) = Some (Inr (True, st'))"
      "ses_sent st' = ses_sent st @ ws" "concat ws = response_head res @ res_body res" "g_statics st' = s'"
    using read_after_word [of "job_env j" "job_accept j" ?c "load sv st" w res s'] assms(1,5-8) st(3-6) by auto
  from received_answer [OF st(2) assms(3) st(1) r(1-3)] r(4) show ?thesis by blast
qed



end
