(* ===== verification/Event_Log.thy ===== *)
theory Event_Log
  imports Event_Loop
begin

text \<open>
  What the log shows of a running server: every response has exactly one line with its path and code,
  and the client address on a line is the one of the last accept, whoever is served.
\<close>

section \<open>The log of interleaved requests\<close>

text \<open>
  \<^bold>\<open>C13.\<close> The log is a complete record of the requests served: however the requests of several clients and
  the completion of their writes interleave, the lines with a response code the log gains are, in the
  order of arrival, one for each request, with its path and the code of the response its handler gave.
\<close>

theorem access_log_complete:
  assumes "boost B" "server_ready sv" "schedule_ok (map fst (sv_sessions sv)) acts" "list_all (job_ok B sv) (asked acts)"
    "serve_in (sv_handlers sv) (map (\<lambda>j. (job_env j, cl_request (job_client j))) (asked acts)) (sv_statics sv) = Inr (ress, s')"
  shows "\<exists>sv'. server_run B sv (map action_event acts) sv' \<and>
    metrics (sv_logger sv') = metrics (sv_logger sv) @ map (\<lambda>(j, res). request_record (log_clientIp (sv_logger sv))
      (path_text (cl_segments (job_client j))) (res_code res)) (zip (asked acts) ress)"
  using schedule_served [OF assms] by (auto simp: jobs_done_def)

lemma two_clients_log: "log_clientIp (sv_logger (two_clients tbl)) = ''[IP: 10.0.0.2]''" "metrics (sv_logger (two_clients tbl)) = []"
  by (simp_all add: two_clients_def handle_accept_def start_accept_def zero_server_def started_server_def initial_logger_def
      log_write_def setIp_def metrics_def)

theorem access_log_complete_witness:
  "\<exists>sv'. server_run boost_ref (two_clients demo_table) (map action_event demo_acts) sv' \<and>
     metrics (sv_logger sv') = [request_record ''[IP: 10.0.0.2]'' ''/e/a'' sc_ok, request_record ''[IP: 10.0.0.2]'' ''/h'' sc_ok,
       request_record ''[IP: 10.0.0.2]'' ''/e/b'' sc_ok]"
proof -
  obtain s' where S: "serve_in (sv_handlers (two_clients demo_table)) (map (\<lambda>j. (job_env j, cl_request (job_client j))) (asked demo_acts))
      (sv_statics (two_clients demo_table)) = Inr (demo_answers, s')" using demo_acts_answered by blast
  from access_log_complete [OF boost_ref_documented two_clients_ready demo_acts_ok S] show ?thesis
    by (simp add: two_clients_log demo_job_def demo_client_def path_text_def plain_text_response_def)
qed

section \<open>Any run\<close>

text \<open>The address attribute after an event.\<close>

fun ip_after :: "event \<Rightarrow> string \<Rightarrow> string" where
  "ip_after (Accepted (Inr ip)) old = ''[IP: '' @ ip @ '']''"
| "ip_after (Accepted (Inl e)) old = []"
| "ip_after (Received i chunk) old = old"
| "ip_after (Read_Failed i e) old = []"
| "ip_after (Written i) old = old"
| "ip_after (Write_Failed i e) old = []"

text \<open>Responses whose write has completed or failed, and those still being written.\<close>

fun write_ended :: "event \<Rightarrow> bool" where
  "write_ended (Written i) = True"
| "write_ended (Write_Failed i e) = True"
| "write_ended _ = False"

definition being_written :: "pending \<times> session \<Rightarrow> bool" where
  "being_written p = (fst p = Writing \<and> \<not> ses_deleted (snd p))"

definition responses_logged :: "server_state \<Rightarrow> nat \<Rightarrow> bool" where
  "responses_logged sv n = (length (metrics (sv_logger sv)) = n + length (filter being_written (sv_sessions sv)))"

text \<open>What one step adds to the log.\<close>

definition log_step :: "event \<Rightarrow> server_state \<Rightarrow> server_state \<Rightarrow> bool" where
  "log_step ev sv sv' =
     (log_clientIp (sv_logger sv') = ip_after ev (log_clientIp (sv_logger sv)) \<and>
      log_reqPath (sv_logger sv') = [] \<and> log_resCode (sv_logger sv') = [] \<and>
      (\<exists>rs. log_records (sv_logger sv') = log_records (sv_logger sv) @ rs \<and>
         (\<forall>r \<in> set rs. lr_clientIp r = log_clientIp (sv_logger sv))))"

definition log_quiet :: "logger \<Rightarrow> bool" where
  "log_quiet l = (log_reqPath l = [] \<and> log_resCode l = [])"

lemma filter_update:
  "i < length xs \<Longrightarrow> length (filter P (xs[i := x])) + (if P (xs ! i) then 1 else 0) = length (filter P xs) + (if P x then 1 else 0)"
proof (induction xs arbitrary: i)
  case (Cons y xs)
  show ?case
  proof (cases i)
    case (Suc k)
    with Cons.IH [of k] Cons.prems show ?thesis by (simp split: if_splits)
  qed simp
qed simp

lemma store_log [simp]: "sv_logger (store i io st sv) = g_logger st" "sv_sessions (store i io st sv) = (sv_sessions sv)[i := (io, st)]"
  by (simp_all add: store_def)

lemma metrics_append: "log_records l' = log_records l @ rs \<Longrightarrow> metrics l' = metrics l @ filter (\<lambda>r. lr_resCode r \<noteq> []) rs"
  by (simp add: metrics_def)

lemma error_logged:
  "log_quiet l \<Longrightarrow> metrics (resetIp (log_write sev msg l)) = metrics l"
  "log_records (resetIp (log_write sev msg l)) = log_records l @
     [\<lparr>lr_clientIp = log_clientIp l, lr_reqPath = log_reqPath l, lr_resCode = log_resCode l, lr_severity = sev, lr_message = msg\<rparr>]"
  by (simp_all add: metrics_def log_write_def resetIp_def log_quiet_def)

lemma server_step_log:
  assumes "server_step B sv ev sv'" "server_inv tbl log sv" "log_quiet (sv_logger sv)" "responses_logged sv n"
  shows "log_step ev sv sv' \<and> responses_logged sv' (n + (if write_ended ev then 1 else 0))"
  using assms
proof (induction rule: server_step.induct)
  case (accepted garbage sv client req)
  then show ?case
    by (cases client) (auto simp: handle_accept_def start_accept_def log_step_def log_quiet_def log_write_def logger_defs
        responses_logged_def metrics_def being_written_def)
next
  case (received i sv st chunk env accept st')
  have ok: "session_ok (load sv st)" using session_of_inv [OF received.prems(1) received.hyps(1,2)] by simp
  have w: "being_written (sv_sessions sv ! i) = False" using received.hyps(2) by (simp add: being_written_def)
  from read_event_kept [OF received.hyps(6) ok received.hyps(4)]
  consider (c) "collected (load sv st) st'" | (a) "replied (load sv st) st'" by blast
  then show ?case
  proof cases
    case c
    then have "after_read st st' = Reading" by (simp add: collected_def after_read_def)
    with c received.prems received.hyps(1) w show ?thesis
      using filter_update [of i "sv_sessions sv" being_written "(Reading, st')"]
      by (auto simp: collected_def log_step_def log_quiet_def responses_logged_def being_written_def)
  next
    case a
    then have "after_read st st' = Writing" by (auto simp: replied_def after_read_def)
    moreover have "being_written (Writing, st')" using a received.hyps(3) by (simp add: replied_def being_written_def)
    moreover from a obtain rs where "log_records (g_logger st') = log_records (sv_logger sv) @ rs"
        "\<forall>r \<in> set rs. lr_clientIp r = log_clientIp (sv_logger sv)" "length (filter (\<lambda>r. lr_resCode r \<noteq> []) rs) = 1"
      using received.prems(2) by (auto simp: replied_def logged_once_def log_quiet_def)
    moreover from this(1) have "metrics (g_logger st') = metrics (sv_logger sv) @ filter (\<lambda>r. lr_resCode r \<noteq> []) rs"
      by (rule metrics_append)
    ultimately show ?thesis
      using a received.prems(3) received.hyps(1) w filter_update [of i "sv_sessions sv" being_written "(Writing, st')"]
      by (auto simp: log_step_def responses_logged_def replied_def logged_once_def)
  qed
next
  case (read_failed i sv st env accept e n st')
  then have st': "st' = delete_session e (load sv st)" by (simp add: handle_read_def)
  have "\<not> being_written (Reading, st')" "\<not> being_written (sv_sessions sv ! i)"
    using read_failed.hyps(2) by (simp_all add: being_written_def)
  with read_failed.prems read_failed.hyps(1) show ?case
    using filter_update [of i "sv_sessions sv" being_written "(Reading, st')"]
    by (auto simp: st' delete_session_def log_step_def responses_logged_def error_logged) 
      (auto simp: resetIp_def log_write_def log_quiet_def)
next
  case (written i sv st st')
  then have st': "st' = load sv st" by (simp add: handle_write_def)
  have "\<not> being_written (Reading, st')" "being_written (sv_sessions sv ! i)"
    using written.hyps(2,3) by (simp_all add: being_written_def)
  with written.prems written.hyps(1) show ?case
    using filter_update [of i "sv_sessions sv" being_written "(Reading, st')"]
    by (auto simp: st' log_step_def responses_logged_def log_quiet_def)
next
  case (write_failed i sv st e st')
  then have st': "st' = delete_session e (load sv st)" by (simp add: handle_write_def)
  have "\<not> being_written (Writing, st')" "being_written (sv_sessions sv ! i)"
    using write_failed.hyps(2,3) by (simp_all add: being_written_def st' delete_session_def)
  with write_failed.prems write_failed.hyps(1) show ?case
    using filter_update [of i "sv_sessions sv" being_written "(Writing, st')"]
    by (auto simp: st' delete_session_def log_step_def responses_logged_def error_logged)
      (auto simp: resetIp_def log_write_def log_quiet_def)
qed

lemma server_run_log:
  assumes "server_run B sv evs sv'" "server_inv tbl log sv" "log_quiet (sv_logger sv)" "responses_logged sv n"
  shows "log_quiet (sv_logger sv') \<and> log_clientIp (sv_logger sv') = fold ip_after evs (log_clientIp (sv_logger sv)) \<and>
    prefix (log_records (sv_logger sv)) (log_records (sv_logger sv')) \<and>
    responses_logged sv' (n + length (filter write_ended evs)) \<and> server_inv tbl log sv'"
  using assms
proof (induction arbitrary: n rule: server_run.induct)
  case (more sv ev sv1 evs sv2)
  let ?n = "n + (if write_ended ev then 1 else 0)"
  from server_step_log [OF more.hyps(1) more.prems] have 1: "log_step ev sv sv1" "responses_logged sv1 ?n" by auto
  have inv: "server_inv tbl log sv1" by (rule server_step_inv [OF more.hyps(1) more.prems(1)])
  from 1(1) have q: "log_quiet (sv_logger sv1)" "log_clientIp (sv_logger sv1) = ip_after ev (log_clientIp (sv_logger sv))"
    "prefix (log_records (sv_logger sv)) (log_records (sv_logger sv1))" by (auto simp: log_step_def log_quiet_def)
  from more.IH [OF inv q(1) 1(2)] q(2,3) show ?case by (auto intro: prefix_order.trans split: if_splits)
qed simp

lemma started_log:
  "log_quiet l \<Longrightarrow> metrics l = [] \<Longrightarrow> responses_logged (started_server garbage req junk tbl s l) 0"
  "sv_logger (started_server garbage req junk tbl s l) = l"
  by (simp_all add: responses_logged_def started_server_def start_accept_def)

text \<open>
  \<^bold>\<open>C12.\<close> In every run of the server, whatever clients send, the number of lines with a response code is
  the number of responses: those whose write has ended, well or not, plus those still being written.
  Path and code never stay set after a callback, and lines once written are kept.
\<close>

theorem responses_are_logged:
  assumes "length garbage = max_length" "statics_wf s" "log_quiet l" "metrics l = []"
    "server_run B (started_server garbage req junk tbl s l) evs sv"
  shows "length (metrics (sv_logger sv)) = length (filter write_ended evs) + length (filter being_written (sv_sessions sv)) \<and>
    log_quiet (sv_logger sv) \<and> prefix (log_records l) (log_records (sv_logger sv))"
  using server_run_log [OF assms(5) started_server_inv [OF assms(1,2)] _ started_log(1) [OF assms(3,4)]] assms(3)
  by (simp add: started_log(2) responses_logged_def)

text \<open>
  \<^bold>\<open>C15.\<close> The address on the lines a callback writes is not that of the client it serves: it is the address
  of the client that was accepted last, or none once any connection has ended since.
\<close>

theorem log_names_last_client:
  assumes "length garbage = max_length" "statics_wf s" "log_quiet l" "metrics l = []"
    "server_run B (started_server garbage req junk tbl s l) evs sv" "server_step B sv (Received i chunk) sv'"
  shows "\<exists>rs. log_records (sv_logger sv') = log_records (sv_logger sv) @ rs \<and>
    (\<forall>r \<in> set rs. lr_clientIp r = fold ip_after evs (log_clientIp l))"
proof -
  from server_run_log [OF assms(5) started_server_inv [OF assms(1,2)] _ started_log(1) [OF assms(3,4)]] assms(3)
  have "log_clientIp (sv_logger sv) = fold ip_after evs (log_clientIp l)" "server_inv tbl (st_status s) sv" "log_quiet (sv_logger sv)"
    "responses_logged sv (length (filter write_ended evs))" by (simp_all add: started_log(2))
  with server_step_log [OF assms(6)] show ?thesis by (auto simp: log_step_def)
qed

lemma initial_logger_quiet: "log_quiet initial_logger" "metrics initial_logger = []" "log_clientIp initial_logger = []"
  by (simp_all add: initial_logger_def log_quiet_def metrics_def)

theorem responses_are_logged_witness:
  "\<exists>sv. server_run boost_ref (zero_server demo_table)
       ([Accepted (Inr ''10.0.0.1''), Accepted (Inr ''10.0.0.2'')] @ map action_event demo_acts) sv \<and>
     length (metrics (sv_logger sv)) = 3 + length (filter being_written (sv_sessions sv))"
proof -
  obtain s' where S: "serve_in (sv_handlers (two_clients demo_table)) (map (\<lambda>j. (job_env j, cl_request (job_client j))) (asked demo_acts))
      (sv_statics (two_clients demo_table)) = Inr (demo_answers, s')" using demo_acts_answered by blast
  from schedule_served [OF boost_ref_documented two_clients_ready demo_acts_ok S] obtain sv where
    "server_run boost_ref (two_clients demo_table) (map action_event demo_acts) sv" by blast
  from server_run_append [OF two_clients_run this]
  have run: "server_run boost_ref (zero_server demo_table)
      ([Accepted (Inr ''10.0.0.1''), Accepted (Inr ''10.0.0.2'')] @ map action_event demo_acts) sv" .
  from responses_are_logged [OF _ initial_statics_wf initial_logger_quiet(1,2) this [unfolded zero_server_def]] run
  show ?thesis by auto
qed

theorem log_names_last_client_witness:
  "\<exists>sv'. server_step boost_ref (two_clients demo_table) (Received 0 (cl_text (demo_client [''e'', ''a'']))) sv' \<and>
     (\<exists>rs. log_records (sv_logger sv') = log_records (sv_logger (two_clients demo_table)) @ rs \<and>
       rs = [request_record ''[IP: 10.0.0.2]'' ''/e/a'' sc_ok] \<and> list_all (\<lambda>r. lr_clientIp r = ''[IP: 10.0.0.2]'') rs)"
proof -
  let ?sv = "two_clients demo_table" and ?j = "demo_job 0 [''e'', ''a'']"
  let ?S = "table_handler demo_env demo_table (cl_request (demo_client [''e'', ''a''])) initial_statics"
  have "isl ?S = False" "fst (projr ?S) = plain_text_response ''a'' sc_ok" by code_simp+
  then have "?S = Inr (plain_text_response ''a'' sc_ok, snd (projr ?S))" by (metis isl_def prod.collapse sum.collapse(2))
  then have S: "table_handler (job_env ?j) (sv_handlers ?sv) (cl_request (job_client ?j)) (sv_statics ?sv) =
      Inr (plain_text_response ''a'' sc_ok, snd (projr ?S))" unfolding two_clients_globals by (simp only: demo_job_def job.select_convs)
  have "cl_ok (demo_client [''e'', ''a''])" by code_simp
  then have j: "job_ok boost_ref ?sv ?j" by (simp add: demo_job_ok)
  have r: "map fst (sv_sessions ?sv) ! job_session ?j = Reading" by (simp add: two_clients_sessions demo_job_def)
  obtain st' where step: "server_step boost_ref ?sv (Received 0 (cl_text (demo_client [''e'', ''a'']))) (store 0 Writing st' ?sv)"
      and l: "g_logger st' = request_logged (path_text (cl_segments (job_client ?j)))
        (table_messages (job_env ?j) (sv_handlers ?sv) (cl_request (job_client ?j)) (sv_statics ?sv)) sc_ok (sv_logger ?sv)"
    using ask_step [OF boost_ref_documented two_clients_ready j r S] by (auto simp: demo_job_def plain_text_response_def)
  have "table_messages demo_env demo_table (cl_request (demo_client [''e'', ''a''])) initial_statics = []" by code_simp
  then have "table_messages (job_env ?j) (sv_handlers ?sv) (cl_request (job_client ?j)) (sv_statics ?sv) = []"
    unfolding two_clients_globals by (simp only: demo_job_def job.select_convs)
  with l have rs: "log_records (sv_logger (store 0 Writing st' ?sv)) = log_records (sv_logger ?sv) @ [request_record ''[IP: 10.0.0.2]'' ''/e/a'' sc_ok]"
    by (simp add: request_logged_def log_write_def logger_defs two_clients_log request_record_def demo_job_def demo_client_def path_text_def)
  from log_names_last_client [OF _ initial_statics_wf initial_logger_quiet(1,2) two_clients_run [unfolded zero_server_def] step]
  have "list_all (\<lambda>r. lr_clientIp r = ''[IP: 10.0.0.2]'') [request_record ''[IP: 10.0.0.2]'' ''/e/a'' sc_ok]"
    using rs by (simp add: list_all_iff)
  with step rs show ?thesis by blast
qed

end
