(* ===== verification/Shared_State.thy ===== *)
theory Shared_State
  imports Event_Loop
begin

text \<open>
  What sequences of requests of any kind do to the state the handlers share: the lengths the responses
  announce, the pages in the cache, and the records the status page shows. The requests are answered
  through the table of the server, each in an environment of its own, as in a running server.
\<close>

section \<open>Invariants of sequences of requests\<close>

text \<open>A condition on the statics that every request of a certain kind keeps, and what its responses satisfy.\<close>

locale kept_by_requests =
  fixes tbl :: handler_table
    and kind :: "environment \<Rightarrow> request \<Rightarrow> bool"
    and inv :: "statics \<Rightarrow> bool"
    and good_response :: "response \<Rightarrow> bool"
  assumes request_keeps:
    "inv s \<Longrightarrow> kind env r \<Longrightarrow> table_handler env tbl r s = Inr (res, s') \<Longrightarrow> inv s' \<and> good_response res"
begin

lemma requests_keep:
  "inv s \<Longrightarrow> list_all (\<lambda>(env, r). kind env r) ers \<Longrightarrow> serve_in tbl ers s = Inr (ress, s') \<Longrightarrow>
   inv s' \<and> length ress = length ers \<and> list_all good_response ress"
proof (induction ers arbitrary: s ress)
  case (Cons er ers)
  obtain env r where er: "er = (env, r)" by (cases er)
  then obtain res s1 ress1 where h: "table_handler env tbl r s = Inr (res, s1)" "serve_in tbl ers s1 = Inr (ress1, s')" "ress = res # ress1"
    using Cons.prems(3) by (auto simp: bind_out_Inr)
  with Cons er request_keeps [OF _ _ h(1)] show ?case by auto
qed simp

end

lemma table_handler_Inr:
  assumes "table_handler env tbl r s = Inr (res, s')"
  obtains h where "handler_for tbl (req_uri r) = Some h" "handleRequest env h r s = Inr (res, s')"
  using assms that by (auto simp: table_handler_def split: option.splits)

section \<open>The three ways a proxy answers\<close>

definition adds_record :: "string \<Rightarrow> string \<Rightarrow> StatusCode \<Rightarrow> statics \<Rightarrow> statics" where
  "adds_record uri name code s = s\<lparr>st_status := st_status s @ [record_text uri name code]\<rparr>"

lemma cache_control_facts:
  assumes "cache_control clk hdrs uri mv \<lparr>can_use = False, cache_only = False, should_cache = True\<rparr> s = (b, fl, s1)"
  shows "can_use fl \<or> cache_only fl \<Longrightarrow> s1 = s"
    "s1 \<noteq> s \<Longrightarrow> \<not> mv \<and> map_at 0 hdrs ''no-store'' \<noteq> 0 \<and> s1 = s\<lparr>st_cached_pages := smap_erase uri (st_cached_pages s)\<rparr>"
  using assms by (auto simp: cache_control_def Let_def split: option.splits prod.splits if_splits)

lemma Proxy_answers:
  assumes "Proxy_handleRequest B C clk ph r s = Inr (res, s')"
  obtains
    (cached) page where "smap_lookup (st_cached_pages s) (req_uri r) = Some page" "res = cp_response page"
      "s' = adds_record (req_uri r) ''ProxyHandler'' sc_not_modified s"
  | (refused) "res = no_cache" "s' = s"
  | (fetched) hdrs dest s1 where "parse_cache_hdrs B (req_headers r) = Inr hdrs" "proxy_fetch C ph dest = Inr res"
      "s1 \<noteq> s \<Longrightarrow> map_at 0 hdrs ''no-cache'' = 0 \<and> map_at 0 hdrs ''no-store'' \<noteq> 0 \<and>
         s1 = s\<lparr>st_cached_pages := smap_erase (req_uri r) (st_cached_pages s)\<rparr>"
      "s' = adds_record (req_uri r) ''ProxyHandler'' (res_code res) s1 \<or>
       res_code res = sc_ok \<and> s' = store_cache clk (req_uri r) res (adds_record (req_uri r) ''ProxyHandler'' (res_code res) s1)"
proof -
  obtain hdrs where h: "parse_cache_hdrs B (req_headers r) = Inr hdrs"
    using assms by (auto simp: Proxy_handleRequest_def bind_out_Inr)
  let ?mv = "map_at 0 hdrs ''no-cache'' \<noteq> 0"
  obtain b fl s1 where cc: "cache_control clk hdrs (req_uri r) ?mv \<lparr>can_use = False, cache_only = False, should_cache = True\<rparr> s = (b, fl, s1)"
    by (metis prod_cases3)
  note facts = cache_control_facts [OF cc]
  consider "can_use fl" | "\<not> can_use fl" "cache_only fl" | "\<not> can_use fl" "\<not> cache_only fl" by blast
  then show ?thesis
  proof cases
    case 1
    then have "use_cache (req_uri r) s = Inr (res, s')" using assms h cc facts(1) by (simp add: Proxy_handleRequest_def)
    from use_cache_result [OF this] show ?thesis using cached by (auto simp: adds_record_def)
  next
    case 2
    then show ?thesis using assms h cc facts(1) refused by (simp add: Proxy_handleRequest_def)
  next
    case 3
    then obtain dest where "proxy_fetch C ph dest = Inr res"
        "s' = adds_record (req_uri r) ''ProxyHandler'' (res_code res) s1 \<or>
         res_code res = sc_ok \<and> s' = store_cache clk (req_uri r) res (adds_record (req_uri r) ''ProxyHandler'' (res_code res) s1)"
      using assms h cc by (auto simp: Proxy_handleRequest_def bind_out_Inr addRecord_def Let_def adds_record_def split: if_splits)
    with fetched [OF h] facts(2) show ?thesis by blast
  qed
qed

text \<open>The handlers that answer through the proxy, and the request as the proxy sees it.\<close>

fun is_proxy :: "handler_obj \<Rightarrow> bool" where
  "is_proxy (Proxy_Obj ph) = True"
| "is_proxy Cache_Obj = True"
| "is_proxy _ = False"

lemma proxy_handles:
  "is_proxy h \<Longrightarrow> \<exists>ph. \<forall>env r s. handleRequest env h r s = Proxy_handleRequest (env_boost env) (env_curl env) (env_clock env) ph r s"
  by (cases h) (auto simp: handleRequest_def Cache_handleRequest_def)

section \<open>What the other handlers do\<close>

fun handler_name :: "handler_obj \<Rightarrow> string" where
  "handler_name Static_Obj = ''StaticHandler''"
| "handler_name Echo_Obj = ''EchoHandler''"
| "handler_name Status_Obj = ''StatusHandler''"
| "handler_name Error_Obj = ''ErrorHandler''"
| "handler_name Health_Obj = ''HealthHandler''"
| "handler_name (Proxy_Obj ph) = ''ProxyHandler''"
| "handler_name Cache_Obj = ''ProxyHandler''"

text \<open>The length a response announces, under either spelling of the header.\<close>

definition announced_length :: "response \<Rightarrow> string option" where
  "announced_length res =
     (case smap_lookup (res_headers res) ''Content-Length'' of
        Some v \<Rightarrow> Some v | None \<Rightarrow> smap_lookup (res_headers res) ''Content-length'')"

definition length_right :: "response \<Rightarrow> bool" where
  "length_right res =
     (case announced_length res of Some v \<Rightarrow> v = to_string (length (res_body res)) | None \<Rightarrow> res_body res = [])"

lemma length_right_texts: "length_right (plain_text_response t code)" "length_right file_not_found" "length_right no_cache"
    "length_right error_response"
  by (simp_all add: length_right_def announced_length_def plain_text_lookup)
    (simp_all add: plain_text_response_def file_not_found_def no_cache_def error_response_def Let_def smap_lookup_def)

text \<open>What a handler that is no proxy does: it leaves the cache alone and makes one record.\<close>

definition answers_alone :: "handler_obj \<Rightarrow> request \<Rightarrow> statics \<Rightarrow> response \<Rightarrow> statics \<Rightarrow> bool" where
  "answers_alone h r s res s' =
     (st_cached_pages s' = st_cached_pages s \<and> (length_right res \<or> res = index_page) \<and> res_code res \<noteq> sc_gateway_timeout \<and>
      (\<exists>path. st_status s' = st_status s @ [record_text path (handler_name h) (res_code res)] \<and> (path = req_uri r \<or> h = Static_Obj)))"

lemma text_answers_alone:
  "answers_alone h r s (plain_text_response t code) (adds_record (req_uri r) (handler_name h) code s) \<longleftrightarrow> code \<noteq> sc_gateway_timeout"
  by (auto simp: answers_alone_def adds_record_def length_right_texts) (auto simp: plain_text_response_def)

lemma log_static_alone:
  assumes "st_cached_pages s1 = st_cached_pages s" "st_status s1 = st_status s" "length_right res \<or> res = index_page"
    "res_code res \<noteq> sc_gateway_timeout" "log_static path res s1 = (res', s')"
  shows "answers_alone Static_Obj r s res' s'"
  using assms by (auto simp: answers_alone_def log_static_def addRecord_def Let_def)

lemma file_lengths_right:
  "length_right \<lparr>res_code = code, res_headers = smap_update ''Connection'' ''close'' (smap_update ''Content-Length'' (to_string (length t))
     (smap_update ''Content-type'' media [])), res_body = t, res_src_type = ty\<rparr>"
  "length_right \<lparr>res_code = code, res_headers = smap_update ''Content-Length'' (to_string (length t))
     (smap_update ''Content-Type'' media []), res_body = t, res_src_type = ty\<rparr>"
  by (simp_all add: length_right_def announced_length_def smap_lookup_update del: smap_update.simps)

lemma file_response_alone:
  assumes "st_cached_pages s1 = st_cached_pages s" "st_status s1 = st_status s"
  shows "getBinaryContent D path ty s1 = Inr (res, s') \<Longrightarrow> answers_alone Static_Obj r s res s'"
    "formResponse D ty path s1 = Inr (res, s') \<Longrightarrow> answers_alone Static_Obj r s res s'"
  using assms file_lengths_right length_right_texts(2)
  by (auto simp: getBinaryContent_def formResponse_def Let_def log_static_def addRecord_def answers_alone_def
      split: fs_entry.splits if_splits)
    (simp_all add: file_not_found_def index_page_def Let_def)

lemma other_answers:
  assumes "\<not> is_proxy h" "handleRequest env h r s = Inr (res, s')"
  shows "answers_alone h r s res s'"
proof (cases "h = Static_Obj")
  case True
  obtain path s1 where p: "replace_path (req_uri r) s = Inr (path, s1)" "st_cached_pages s1 = st_cached_pages s" "st_status s1 = st_status s"
    using replace_path_eq [of "req_uri r" s] by auto
  have nf: "answers_alone Static_Obj r s file_not_found (adds_record (req_uri r) ''StaticHandler'' sc_not_found s1)"
      "answers_alone Static_Obj r s file_not_found (adds_record (req_uri r) ''StaticHandler'' sc_not_found s)"
    using p(2,3) length_right_texts(2) by (auto simp: answers_alone_def adds_record_def file_not_found_def Let_def)
  show ?thesis
    using assms(2) True p(1) nf file_response_alone [OF p(2,3)]
    by (auto simp: handleRequest_def Static_handleRequest_def bind_out_Inr Let_def addRecord_def adds_record_def split: if_splits)
next
  case False
  have ok: "sc_ok \<noteq> sc_gateway_timeout" by simp
  from assms False have "\<exists>t code. res = plain_text_response t code \<and> s' = adds_record (req_uri r) (handler_name h) code s \<and> code \<noteq> sc_gateway_timeout"
    using getEchoBody_cases [of "req_uri r"]
    by (cases h) (auto simp: handleRequest_def simple_handlers adds_record_def, use ok in blast)
  then show ?thesis using text_answers_alone by blast
qed

section \<open>The lengths responses announce\<close>

text \<open>The pages in the cache have the length they announce and the code 200.\<close>

definition pages_right :: "statics \<Rightarrow> bool" where
  "pages_right s = (\<forall>uri page. smap_lookup (st_cached_pages s) uri = Some page \<longrightarrow>
     length_right (cp_response page) \<and> res_code (cp_response page) = sc_ok)"

lemma fetched_length_right:
  assumes "proxy_fetch C ph dest = Inr res"
  shows "length_right res" "res \<noteq> no_cache"
proof -
  have "res = error_response \<or> (\<exists>t hs. received ph t hs = Inr res)"
    using assms unfolding proxy_fetch_def Let_def bind_out_Inr if_distrib [of "\<lambda>x. x = Inr res"] by (auto simp: bind_out_Inr split: if_splits)
  then consider "res = error_response" | t hs where "received ph t hs = Inr res" by blast
  then have "length_right res \<and> res \<noteq> no_cache"
  proof cases
    case 1
    then show ?thesis using length_right_texts(4) by (simp add: error_response_def no_cache_def)
  next
    case 2
    then have len: "smap_lookup (res_headers res) ''Content-Length'' = Some (to_string (length (res_body res)))"
      by (auto simp: received_def Let_def bind_out_Inr smap_lookup_erase smap_lookup_update)
    moreover have "smap_lookup (res_headers no_cache) ''Content-Length'' = None" by (simp add: no_cache_def smap_lookup_def)
    ultimately show ?thesis by (auto simp: length_right_def announced_length_def)
  qed
  then show "length_right res" "res \<noteq> no_cache" by blast+
qed

lemma pages_right_changes:
  "pages_right (adds_record uri name code s) = pages_right s"
  "pages_right s \<Longrightarrow> pages_right (s\<lparr>st_cached_pages := smap_erase uri (st_cached_pages s)\<rparr>)"
  "pages_right s \<Longrightarrow> length_right res \<Longrightarrow> res_code res = sc_ok \<Longrightarrow> pages_right (store_cache clk uri res s)"
  by (auto simp: pages_right_def adds_record_def smap_lookup_erase store_cache_def smap_lookup_insert new_cached_page_def split: if_splits)

lemma proxy_length_right:
  assumes "Proxy_handleRequest B C clk ph r s = Inr (res, s')" "pages_right s"
  shows "pages_right s' \<and> length_right res"
  using assms(1)
proof (cases rule: Proxy_answers)
  case (cached page)
  then show ?thesis using assms(2) by (auto simp: pages_right_changes(1)) (auto simp: pages_right_def)
next
  case refused
  then show ?thesis using assms(2) length_right_texts by simp
next
  case (fetched hdrs dest s1)
  have "pages_right s1" using fetched(3) assms(2) pages_right_changes(2) by metis
  then show ?thesis using fetched(4) fetched_length_right [OF fetched(2)] by (auto simp: pages_right_changes(1,3))
qed

interpretation lengths: kept_by_requests tbl "\<lambda>env r. True" pages_right "\<lambda>res. length_right res \<or> res = index_page" for tbl
proof
  fix s env r res s'
  assume inv: "pages_right s" and "table_handler env tbl r s = Inr (res, s')"
  from this(2) obtain h where h: "handleRequest env h r s = Inr (res, s')" by (rule table_handler_Inr)
  show "pages_right s' \<and> (length_right res \<or> res = index_page)"
  proof (cases "is_proxy h")
    case True
    then obtain ph where "Proxy_handleRequest (env_boost env) (env_curl env) (env_clock env) ph r s = Inr (res, s')"
      using proxy_handles h by metis
    from proxy_length_right [OF this inv] show ?thesis by blast
  next
    case False
    from other_answers [OF this h] inv show ?thesis by (auto simp: answers_alone_def pages_right_def)
  qed
qed

text \<open>
  \<^bold>\<open>C14.\<close> Over any sequence of requests to any handlers, whatever files, clock and remote servers there are,
  every response announces the length its body has: the value of \<^verbatim>\<open>Content-Length\<close>, or of \<^verbatim>\<open>Content-length\<close>
  where only that is set, is the number of its bytes, and a response without either has no body. This holds of
  responses from the cache, of rewritten pages and of the other handlers alike; the only exception
  is the index page, which announces one byte too many. Pages put into the cache are right too, so that
  the server can go on in the same way.
\<close>

theorem announced_lengths_right:
  assumes "pages_right s" "serve_in tbl ers s = Inr (ress, s')"
  shows "length ress = length ers \<and> list_all (\<lambda>res. length_right res \<or> res = index_page) ress \<and> \<not> length_right index_page \<and> pages_right s'"
proof -
  have "list_all (\<lambda>(env, r). True) ers" by (simp add: list_all_iff)
  from lengths.requests_keep [OF assms(1) this assms(2)] have
    "length ress = length ers \<and> list_all (\<lambda>res. length_right res \<or> res = index_page) ress \<and> pages_right s'" by blast
  moreover have "\<not> length_right index_page" by code_simp
  ultimately show ?thesis by blast
qed

theorem announced_lengths_right_witness:
  "list_all (\<lambda>res. length_right res \<or> res = index_page) (fst (projr (serve_in [(quoted ''/e'', Some Echo_Obj), (quoted ''/u'', Some (Proxy_Obj ucla))]
     [(demo_env, ask [] ''/u/a''), (demo_env, ask [] ''/e/hi''), (demo_env, ask [] ''/u/a'')] initial_statics)))"
proof -
  let ?S = "serve_in [(quoted ''/e'', Some Echo_Obj), (quoted ''/u'', Some (Proxy_Obj ucla))]
     [(demo_env, ask [] ''/u/a''), (demo_env, ask [] ''/e/hi''), (demo_env, ask [] ''/u/a'')] initial_statics"
  have "isl ?S = False" by code_simp
  then have S: "?S = Inr (fst (projr ?S), snd (projr ?S))" by (metis isl_def prod.collapse sum.collapse(2))
  have "pages_right initial_statics" by (simp add: pages_right_def initial_statics_def smap_lookup_def)
  from announced_lengths_right [OF this S] show ?thesis by blast
qed

section \<open>The life of a cached page\<close>

text \<open>The requests that remove the page of a target: with \<^verbatim>\<open>no-store\<close> and without \<^verbatim>\<open>no-cache\<close>.\<close>

definition drops_page :: "boost_lib \<Rightarrow> string \<Rightarrow> request \<Rightarrow> bool" where
  "drops_page B uri r =
     (req_uri r = uri \<and> (case parse_cache_hdrs B (req_headers r) of
        Inl _ \<Rightarrow> False | Inr hdrs \<Rightarrow> map_at 0 hdrs ''no-cache'' = 0 \<and> map_at 0 hdrs ''no-store'' \<noteq> 0))"

lemma proxy_keeps_page:
  assumes "Proxy_handleRequest B C clk ph r s = Inr (res, s')" "\<not> drops_page B uri r" "smap_lookup (st_cached_pages s) uri = Some page"
  shows "smap_lookup (st_cached_pages s') uri = Some page"
  using assms(1)
proof (cases rule: Proxy_answers)
  case (fetched hdrs dest s1)
  have "s1 \<noteq> s \<Longrightarrow> req_uri r \<noteq> uri" using fetched(1,3) assms(2) by (auto simp: drops_page_def)
  then have "smap_lookup (st_cached_pages s1) uri = Some page" using fetched(3) assms(3) by (cases "s1 = s") (auto simp: smap_lookup_erase)
  then show ?thesis using fetched(4) by (auto simp: adds_record_def store_cache_def smap_lookup_insert)
qed (use assms(3) in \<open>auto simp: adds_record_def\<close>)

interpretation page_life: kept_by_requests tbl "\<lambda>env r. env_boost env = B \<and> \<not> drops_page B uri r"
  "\<lambda>s. smap_lookup (st_cached_pages s) uri = Some page" "\<lambda>res. True" for tbl B uri page
proof
  fix s env r res s'
  assume inv: "smap_lookup (st_cached_pages s) uri = Some page" and r: "env_boost env = B \<and> \<not> drops_page B uri r"
    and "table_handler env tbl r s = Inr (res, s')"
  from this(3) obtain h where h: "handleRequest env h r s = Inr (res, s')" by (rule table_handler_Inr)
  show "smap_lookup (st_cached_pages s') uri = Some page \<and> True"
  proof (cases "is_proxy h")
    case True
    then obtain ph where "Proxy_handleRequest B (env_curl env) (env_clock env) ph r s = Inr (res, s')"
      using proxy_handles h r by metis
    from proxy_keeps_page [OF this _ inv] r show ?thesis by blast
  next
    case False
    from other_answers [OF this h] inv show ?thesis by (simp add: answers_alone_def)
  qed
qed

text \<open>
  \<^bold>\<open>C24.\<close> A page that a proxy location has fetched once with code 200 never expires: after any further
  requests of any clients, to any handlers and with any directives but a \<^verbatim>\<open>no-store\<close> for this target, every request for it
  without a directive gets the very same response, whatever time has passed and whatever the remote
  server would answer now. (The comment at the place where the page is stored says that it expires in one minute.)
\<close>

theorem proxy_page_never_expires:
  fixes env env' :: environment
  assumes "boost B" "handler_for tbl uri = Some h" "is_proxy h"
    "env_boost env = B" "req_uri r = uri" "smap_lookup (req_headers r) ''Cache-Control'' = None"
    "smap_lookup (st_cached_pages s) uri = None" "table_handler env tbl r s = Inr (res, s1)" "res_code res = sc_ok"
    "list_all (\<lambda>(env, q). env_boost env = B \<and> \<not> drops_page B uri q) ers" "serve_in tbl ers s1 = Inr (ress, s2)"
    "env_boost env' = B" "req_uri r' = uri" "smap_lookup (req_headers r') ''Cache-Control'' = None"
  shows "\<exists>s3. table_handler env' tbl r' s2 = Inr (res, s3)"
proof -
  obtain ph where ph: "\<forall>env r s. handleRequest env h r s = Proxy_handleRequest (env_boost env) (env_curl env) (env_clock env) ph r s"
    using proxy_handles [OF assms(3)] by blast
  have tbl: "table_handler e tbl q s = Proxy_handleRequest (env_boost e) (env_curl e) (env_clock e) ph q s" if "req_uri q = uri" for e q s
    using that assms(2) ph by (simp add: table_handler_def)
  let ?page = "new_cached_page res one_min (now_store (env_clock env))"
  have "smap_lookup (st_cached_pages s1) uri = Some ?page"
    using proxy_page_stored [OF assms(1,6,9), of s] assms(4,5,7,8) tbl by metis
  from page_life.requests_keep [OF this assms(10,11)] have "smap_lookup (st_cached_pages s2) (req_uri r') = Some ?page"
    using assms(13) by simp
  from proxy_hit [OF assms(1,14) this] show ?thesis using tbl [OF assms(13)] assms(12) by (simp add: new_cached_page_def)
qed

text \<open>The environment of a request at a time, with what a remote server answers then.\<close>

definition env_at :: "int \<Rightarrow> string \<Rightarrow> environment" where
  "env_at t msg = demo_env\<lparr>env_clock := all_at t, env_curl := one_reply [] msg\<rparr>"

theorem proxy_page_never_expires_witness:
  "\<exists>s1 s2 s3. table_handler (env_at 100 ''old'') [(quoted ''/u'', Some (Proxy_Obj ucla))] (ask [] ''/u/a'') initial_statics = Inr (text_page ''old'', s1) \<and>
     serve_in [(quoted ''/u'', Some (Proxy_Obj ucla))]
       [(env_at 500 ''new'', ask [(''Cache-Control'', ''no-cache'')] ''/u/a''), (env_at 600 ''b'', ask [(''Cache-Control'', ''no-store'')] ''/u/b'')] s1 =
       Inr ([text_page ''new'', text_page ''b''], s2) \<and>
     table_handler (env_at 900000 ''new'') [(quoted ''/u'', Some (Proxy_Obj ucla))] (ask [] ''/u/a'') s2 = Inr (text_page ''old'', s3)"
proof -
  let ?tbl = "[(quoted ''/u'', Some (Proxy_Obj ucla))]"
  let ?ers = "[(env_at 500 ''new'', ask [(''Cache-Control'', ''no-cache'')] ''/u/a''), (env_at 600 ''b'', ask [(''Cache-Control'', ''no-store'')] ''/u/b'')]"
  let ?P = "table_handler (env_at 100 ''old'') ?tbl (ask [] ''/u/a'') initial_statics"
  let ?S = "serve_in ?tbl ?ers (snd (projr ?P))"
  have "isl ?P = False" "fst (projr ?P) = text_page ''old''" "isl ?S = False" "fst (projr ?S) = [text_page ''new'', text_page ''b'']" by code_simp+
  then have P: "?P = Inr (text_page ''old'', snd (projr ?P))" and S: "?S = Inr ([text_page ''new'', text_page ''b''], snd (projr ?S))"
    by (metis isl_def prod.collapse sum.collapse(2))+
  have h: "handler_for ?tbl ''/u/a'' = Some (Proxy_Obj ucla)" by code_simp
  have B: "env_boost (env_at t m) = boost_ref" for t m by (simp add: env_at_def demo_env_def)
  have "list_all (\<lambda>r. \<not> drops_page boost_ref ''/u/a'' r) [ask [(''Cache-Control'', ''no-cache'')] ''/u/a'', ask [(''Cache-Control'', ''no-store'')] ''/u/b'']"
    by code_simp
  then have ers: "list_all (\<lambda>(env, q). env_boost env = boost_ref \<and> \<not> drops_page boost_ref ''/u/a'' q) ?ers" by (simp add: B)
  have "\<exists>s3. table_handler (env_at 900000 ''new'') ?tbl (ask [] ''/u/a'') (snd (projr ?S)) = Inr (text_page ''old'', s3)"
    by (rule proxy_page_never_expires [OF boost_ref_documented h _ B _ _ _ P _ ers S B])
      (simp_all add: ask_def text_page_def initial_statics_def smap_lookup_def)
  with P S show ?thesis by blast
qed

section \<open>The records\<close>

text \<open>
  The record of a request and its response: of the handler of the target, for the target or, by the static
  handler, the path of the file, with the code of the response or, for a page from the cache, \<^verbatim>\<open>304\<close>.
\<close>

definition records_request :: "handler_table \<Rightarrow> request \<times> response \<Rightarrow> string \<Rightarrow> bool" where
  "records_request tbl = (\<lambda>(r, res) entry. \<exists>h path code. handler_for tbl (req_uri r) = Some h \<and>
     entry = record_text path (handler_name h) code \<and> (path = req_uri r \<or> h = Static_Obj) \<and>
     (code = res_code res \<or> is_proxy h \<and> code = sc_not_modified))"

lemma records_requestI:
  assumes "handler_for tbl (req_uri r) = Some h" "path = req_uri r \<or> h = Static_Obj"
    "code = res_code res \<or> is_proxy h \<and> code = sc_not_modified"
  shows "records_request tbl (r, res) (record_text path (handler_name h) code)"
  using assms unfolding records_request_def by blast

lemma request_recorded:
  assumes "table_handler env tbl r s = Inr (res, s')" "pages_right s"
  shows "if res = no_cache then st_status s' = st_status s else \<exists>e. st_status s' = st_status s @ [e] \<and> records_request tbl (r, res) e"
proof -
  have nc: "res_code no_cache = sc_gateway_timeout" by (simp add: no_cache_def)
  obtain h where h: "handler_for tbl (req_uri r) = Some h" "handleRequest env h r s = Inr (res, s')"
    using assms(1) by (rule table_handler_Inr)
  show ?thesis
  proof (cases "is_proxy h")
    case True
    then obtain ph where "Proxy_handleRequest (env_boost env) (env_curl env) (env_clock env) ph r s = Inr (res, s')"
      using proxy_handles h(2) by metis
    moreover have name: "handler_name h = ''ProxyHandler''" using True by (cases h) simp_all
    ultimately show ?thesis
    proof (cases rule: Proxy_answers)
      case (cached page)
      then have "res_code res = sc_ok" using assms(2) unfolding pages_right_def by blast
      then have "res \<noteq> no_cache" using nc by auto
      moreover have "records_request tbl (r, res) (record_text (req_uri r) ''ProxyHandler'' sc_not_modified)"
        using records_requestI [OF h(1)] True name by metis
      ultimately show ?thesis using cached(3) by (simp add: adds_record_def)
    next
      case (fetched hdrs dest s1)
      have "st_status s1 = st_status s" using fetched(3) by (cases "s1 = s") auto
      moreover have "records_request tbl (r, res) (record_text (req_uri r) ''ProxyHandler'' (res_code res))"
        using records_requestI [OF h(1)] name by metis
      ultimately show ?thesis using fetched(4) fetched_length_right(2) [OF fetched(2)] by (auto simp: adds_record_def)
    qed simp
  next
    case False
    from other_answers [OF this h(2)] obtain path where "res_code res \<noteq> sc_gateway_timeout"
        "st_status s' = st_status s @ [record_text path (handler_name h) (res_code res)]" "path = req_uri r \<or> h = Static_Obj"
      unfolding answers_alone_def by blast
    with nc records_requestI [OF h(1) this(3), of "res_code res" res] show ?thesis by auto
  qed
qed

lemma requests_recorded:
  assumes "serve_in tbl ers s = Inr (ress, s')" "pages_right s"
  shows "\<exists>es. st_status s' = st_status s @ es \<and>
    list_all2 (records_request tbl) (filter (\<lambda>(r, res). res \<noteq> no_cache) (zip (map snd ers) ress)) es"
  using assms
proof (induction ers arbitrary: s ress)
  case (Cons er ers)
  obtain env r where er: "er = (env, r)" by (cases er)
  then obtain res s1 ress1 where h: "table_handler env tbl r s = Inr (res, s1)" "serve_in tbl ers s1 = Inr (ress1, s')" "ress = res # ress1"
    using Cons.prems(1) by (auto simp: bind_out_Inr)
  have "pages_right s1" using lengths.request_keeps [OF Cons.prems(2) _ h(1)] by blast
  from Cons.IH [OF h(2) this] request_recorded [OF h(1) Cons.prems(2)] show ?case
    by (auto simp: er h(3) split: if_splits)
qed simp



end
