(* ===== verification/Port_Aliases.thy ===== *)
theory Port_Aliases
  imports Port
begin

text \<open>
  What \<^verbatim>\<open>port::checkFilePath\<close> reads from a configuration in which every location holds one \<^verbatim>\<open>root\<close>
  statement, the form its comment explains.
\<close>

definition alias_stmt :: "string \<times> string \<Rightarrow> NginxConfigStatement" where
  "alias_stmt ap = Statement [''location'', fst ap] (Some (Config [Statement [''root'', snd ap] None]))"

definition alias_config :: "string \<Rightarrow> (string \<times> string) list \<Rightarrow> NginxConfig" where
  "alias_config n aps = Config (Statement [''port'', n] None # map alias_stmt aps)"

definition alias_tokens :: "string \<times> string \<Rightarrow> string list" where
  "alias_tokens ap = [''location'', fst ap, ''{'', ''root'', snd ap, '';'', ''}'']"

definition alias_ok :: "string \<times> string \<Rightarrow> bool" where
  "alias_ok ap = (token_wf (fst ap) \<and> token_wf (snd ap))"

lemma cur_tokens_Cons: "cur_tokens t input = u # us \<Longrightarrow> t = u \<and> t \<noteq> [] \<and> all_tokens input = us"
  by (simp add: cur_tokens_def split: if_splits)

lemma collect_until_found:
  "cur_tokens t input = us @ stop # vs \<Longrightarrow> stop \<notin> set us \<Longrightarrow>
   \<exists>rest. collect_until stop t input q = Some (q @ us, rest) \<and> all_tokens rest = vs"
proof (induction us arbitrary: t input q)
  case Nil
  then have "t = stop" "all_tokens input = vs" by (auto dest: cur_tokens_Cons)
  then show ?case by (simp add: collect_until.simps)
next
  case (Cons u us)
  obtain t' input' where t': "getToken input = (t', input')" by (cases "getToken input")
  from Cons.prems have u: "t = u" "all_tokens input = us @ stop # vs" "t \<noteq> stop"
    by (auto dest: cur_tokens_Cons)
  then have "cur_tokens t' input' = us @ stop # vs" using t' by (simp add: cur_tokens_getToken)
  from Cons.IH [OF this, of "q @ [u]"] u Cons.prems(2) t' show ?case by (subst collect_until.simps) simp
qed

text \<open>One token ahead of the loop, and one location.\<close>

lemma alias_scan_skip:
  assumes "cur_tokens t input = u # ts" "l \<noteq> ''location''"
  shows "\<exists>t' input'. cur_tokens t' input' = ts \<and> alias_scan l t input q = alias_scan u t' input' q"
proof -
  obtain t' input' where t': "getToken input = (t', input')" by (cases "getToken input")
  moreover have "t = u" "t \<noteq> []" "all_tokens input = ts" using cur_tokens_Cons [OF assms(1)] by auto
  ultimately have "cur_tokens t' input' = ts" "alias_scan l t input q = alias_scan u t' input' q"
    using assms(2) by (simp_all add: cur_tokens_getToken alias_scan.simps [of l u])
  then show ?thesis by blast
qed

lemma alias_scan_location:
  assumes "cur_tokens t input = a # ''{'' # us @ '';'' # ts" "'';'' \<notin> set us"
  shows "\<exists>t' input'. cur_tokens t' input' = ts \<and>
    alias_scan ''location'' t input q = alias_scan '';'' t' input' (q @ a # us)"
proof -
  obtain t1 input1 where t1: "getToken input = (t1, input1)" by (cases "getToken input")
  obtain t2 input2 where t2: "getToken input1 = (t2, input2)" by (cases "getToken input1")
  have a: "t = a" "t \<noteq> []" "cur_tokens t1 input1 = ''{'' # us @ '';'' # ts"
    using cur_tokens_Cons [OF assms(1)] t1 by (auto simp: cur_tokens_getToken)
  then have b: "t1 = ''{''" "cur_tokens t2 input2 = us @ '';'' # ts"
    using cur_tokens_Cons [OF a(3)] t2 by (auto simp: cur_tokens_getToken)
  obtain rest where rest: "collect_until '';'' t2 input2 (q @ [a]) = Some ((q @ [a]) @ us, rest)" "all_tokens rest = ts"
    using collect_until_found [OF b(2) assms(2)] by blast
  obtain t4 input4 where t4: "getToken rest = (t4, input4)" by (cases "getToken rest")
  have "cur_tokens t4 input4 = ts" "alias_scan ''location'' t input q = alias_scan '';'' t4 input4 (q @ a # us)"
    using a(1,2) b(1) t1 t2 t4 rest by (simp_all add: cur_tokens_getToken alias_scan.simps [of "''location''" a])
  then show ?thesis by blast
qed

lemma alias_scan_aliases:
  assumes "cur_tokens t input = concat (map alias_tokens aps)" "list_all alias_ok aps" "l \<noteq> ''location''"
  shows "alias_scan l t input q = Some (q @ concat (map (\<lambda>(a, path). [a, ''root'', path]) aps))"
  using assms
proof (induction aps arbitrary: l t input q)
  case Nil
  then show ?case by (subst alias_scan.simps) (simp add: cur_tokens_def split: if_splits)
next
  case (Cons ap aps)
  obtain a path where ap: "ap = (a, path)" by (cases ap)
  let ?ts = "concat (map alias_tokens aps)"
  have "cur_tokens t input = ''location'' # a # ''{'' # [''root'', path] @ '';'' # ''}'' # ?ts"
    using Cons.prems(1) by (simp add: ap alias_tokens_def [of "(a, path)"])
  then obtain t1 input1 where 1: "cur_tokens t1 input1 = a # ''{'' # [''root'', path] @ '';'' # ''}'' # ?ts"
      "alias_scan l t input q = alias_scan ''location'' t1 input1 q"
    using alias_scan_skip Cons.prems(3) by blast
  have "'';'' \<notin> set [''root'', path]" using Cons.prems(2) token_wf_not_special(3) by (auto simp: ap alias_ok_def)
  then obtain t2 input2 where 2: "cur_tokens t2 input2 = ''}'' # ?ts"
      "alias_scan ''location'' t1 input1 q = alias_scan '';'' t2 input2 (q @ a # [''root'', path])"
    using alias_scan_location [OF 1(1)] by blast
  obtain t3 input3 where 3: "cur_tokens t3 input3 = ?ts"
      "alias_scan '';'' t2 input2 (q @ a # [''root'', path]) = alias_scan ''}'' t3 input3 (q @ a # [''root'', path])"
    using alias_scan_skip [OF 2(1), of "'';''" "q @ a # [''root'', path]"] by auto
  show ?case using Cons.IH [OF 3(1), of "''}''"] Cons.prems(2) 1(2) 2(2) 3(2) by (simp add: ap)
qed

lemma root_wf: "token_wf ''root''"
  by (simp add: token_wf_def word_token_def ends_normal_def)

lemma alias_config_wf: "token_wf n \<Longrightarrow> list_all alias_ok aps \<Longrightarrow> config_wf (alias_config n aps)"
  using token_wf_port root_wf by (induction aps) (auto simp: alias_config_def alias_stmt_def alias_ok_def)

lemma alias_config_tokens:
  "config_tokens (alias_config n aps) = [''port'', n, '';''] @ concat (map alias_tokens aps)"
  by (induction aps) (auto simp: alias_config_def alias_stmt_def alias_tokens_def)

lemma store_aliases_all:
  "store_aliases (concat (map (\<lambda>(a, path). [a, ''root'', path]) aps)) p =
     p\<lparr>fileMap := fileMap p @ concat (map (\<lambda>(a, path). [a, path]) aps)\<rparr>"
  by (induction aps arbitrary: p) (auto simp: setFilePath_def)

text \<open>
  From the text of a configuration with a port and, for one location or more, a \<^verbatim>\<open>root\<close>, the scan
  for file paths returns with success and adds exactly the locations and their paths, in order.
\<close>

theorem file_paths_read:
  assumes "token_wf n" "n \<noteq> ''location''" "list_all alias_ok aps" "aps \<noteq> []"
  shows "checkFilePath (Some (config_ToString d (alias_config n aps))) p =
    Some (True, p\<lparr>fileMap := fileMap p @ concat (map (\<lambda>(a, path). [a, path]) aps)\<rparr>)"
proof -
  let ?s = "config_ToString d (alias_config n aps)"
  let ?queue = "concat (map (\<lambda>(a, path). [a, ''root'', path]) aps)"
  obtain t input where t: "getToken ?s = (t, input)" by (cases "getToken ?s")
  have "all_tokens ?s = [''port'', n, '';''] @ concat (map alias_tokens aps)"
    using all_tokens_printed(2) [OF alias_config_wf [OF assms(1,3)], of d "[]"] by (simp add: alias_config_tokens)
  then have "cur_tokens t input = ''port'' # n # '';'' # concat (map alias_tokens aps)" using t by (simp add: cur_tokens_getToken)
  then obtain t1 input1 where 1: "cur_tokens t1 input1 = n # '';'' # concat (map alias_tokens aps)"
      "alias_scan [] t input [] = alias_scan ''port'' t1 input1 []"
    using alias_scan_skip [of t input _ _ "[]"] by blast
  obtain t2 input2 where 2: "cur_tokens t2 input2 = '';'' # concat (map alias_tokens aps)"
      "alias_scan ''port'' t1 input1 [] = alias_scan n t2 input2 []"
    using alias_scan_skip [OF 1(1), of "''port''" "[]"] by auto
  obtain t3 input3 where 3: "cur_tokens t3 input3 = concat (map alias_tokens aps)"
      "alias_scan n t2 input2 [] = alias_scan '';'' t3 input3 []"
    using alias_scan_skip [OF 2(1) assms(2), of "[]"] by auto
  have "alias_scan [] t input [] = Some ?queue"
    using alias_scan_aliases [OF 3(1) assms(3), of "'';''" "[]"] 1(2) 2(2) 3(2) by simp
  moreover have "length ?queue = 3 * length aps" by (induction aps) auto
  moreover have "?queue \<noteq> []" using assms(4) by (cases aps) auto
  ultimately show ?thesis using t by (simp add: checkFilePath_def file_text_def store_aliases_all)
qed

theorem file_paths_read_witness:
  "checkFilePath (Some (config_ToString 0 (alias_config ''80'' [(''/a'', ''/data/a''), (''/b'', ''/data/b'')])))
     \<lparr>portNum = 0, fileMap = [], port_config_blocks = []\<rparr> =
   Some (True, \<lparr>portNum = 0, fileMap = [''/a'', ''/data/a'', ''/b'', ''/data/b''], port_config_blocks = []\<rparr>)"
proof -
  have "token_wf ''80''" "list_all alias_ok [(''/a'', ''/data/a''), (''/b'', ''/data/b'')]" by code_simp+
  from file_paths_read [OF this(1) _ this(2), of 0 "\<lparr>portNum = 0, fileMap = [], port_config_blocks = []\<rparr>"] show ?thesis by simp
qed

end
