(* ===== verification/Legacy_Response.thy ===== *)
theory Legacy_Response
  imports Dispatcher
begin

text \<open>
  \<^verbatim>\<open>src/response.cc\<close>: the response class the server used before the one of \<^verbatim>\<open>include/response.h\<close>. The
  file is kept in the repository, with tests in \<^verbatim>\<open>tests/response_test.cc\<close>, and is not part of the build.
  The enumerators of its status codes have the names they have in \<^verbatim>\<open>response.h\<close>; the members are those
  its functions use.
\<close>

section \<open>Status lines and default pages\<close>

fun Status_ToString :: "StatusCode \<Rightarrow> string" where
  "Status_ToString sc_ok = ''HTTP/1.1 200 OK'' @ crlf"
| "Status_ToString sc_created = ''HTTP/1.1 201 Created'' @ crlf"
| "Status_ToString sc_accepted = ''HTTP/1.1 202 Accepted'' @ crlf"
| "Status_ToString sc_no_content = ''HTTP/1.1 204 No Content'' @ crlf"
| "Status_ToString sc_moved_permanently = ''HTTP/1.1 301 Moved Permanently'' @ crlf"
| "Status_ToString sc_moved_temporarily = ''HTTP/1.1 302 Moved Temporarily'' @ crlf"
| "Status_ToString sc_not_modified = ''HTTP/1.1 304 Not Modified'' @ crlf"
| "Status_ToString sc_bad_request = ''HTTP/1.1 400 Bad Request'' @ crlf"
| "Status_ToString sc_unauthorized = ''HTTP/1.1 401 Unauthorized'' @ crlf"
| "Status_ToString sc_forbidden = ''HTTP/1.1 403 Forbidden'' @ crlf"
| "Status_ToString sc_not_found = ''HTTP/1.1 404 Not Found'' @ crlf"
| "Status_ToString sc_internal_server_error = ''HTTP/1.1 500 Internal Server Error'' @ crlf"
| "Status_ToString sc_not_implemented = ''HTTP/1.1 501 Not Implemented'' @ crlf"
| "Status_ToString sc_bad_gateway = ''HTTP/1.1 502 Bad Gateway'' @ crlf"
| "Status_ToString sc_service_unavailable = ''HTTP/1.1 503 Service Unavailable'' @ crlf"
| "Status_ToString sc_gateway_timeout = ''HTTP/1.1 504 Gateway Time-out'' @ crlf"
| "Status_ToString (sc_other n) = ''HTTP/1.1 500 Internal Server Error'' @ crlf"

definition html_page :: "string \<Rightarrow> string \<Rightarrow> string" where
  "html_page title heading =
     ''<html>'' @ ''<head><title>'' @ title @ ''</title></head>'' @ ''<body><h1>'' @ heading @ ''</h1></body>'' @ ''</html>''"

text \<open>The constants of the namespace \<^verbatim>\<open>DefaultResponse\<close>.\<close>

fun default_body :: "StatusCode \<Rightarrow> string" where
  "default_body sc_ok = []"
| "default_body sc_created = html_page ''Created'' ''201 Created''"
| "default_body sc_accepted = html_page ''Accepted'' ''202 Accepted''"
| "default_body sc_no_content = html_page ''No Content'' ''204 Content''"
| "default_body sc_moved_permanently = html_page ''Moved Permanently'' ''301 Moved Permanently''"
| "default_body sc_moved_temporarily = html_page ''Moved Temporarily'' ''302 Moved Temporarily''"
| "default_body sc_not_modified = html_page ''Not Modified'' ''304 Not Modified''"
| "default_body sc_bad_request = html_page ''Bad Request'' ''400 Bad Request''"
| "default_body sc_unauthorized = html_page ''Unauthorized'' ''401 Unauthorized''"
| "default_body sc_forbidden = html_page ''Forbidden'' ''403 Forbidden''"
| "default_body sc_not_found = html_page ''Not Found'' ''404 Not Found''"
| "default_body sc_internal_server_error = html_page ''Internal Server Error'' ''500 Internal Server Error''"
| "default_body sc_not_implemented = html_page ''Not Implemented'' ''501 Not Implemented''"
| "default_body sc_bad_gateway = html_page ''Bad Gateway'' ''502 Bad Gateway''"
| "default_body sc_service_unavailable = html_page ''Service Unavailable'' ''503 Service Unavailable''"
| "default_body sc_gateway_timeout = html_page ''Gateway Time-out'' ''504 Gateway Time-out''"
| "default_body (sc_other n) = []"

text \<open>The switch has no case for \<^verbatim>\<open>gateway_timeout\<close>, which takes its default.\<close>

definition ToHtml :: "StatusCode \<Rightarrow> string" where
  "ToHtml status =
     (case status of
        sc_gateway_timeout \<Rightarrow> default_body sc_internal_server_error
      | sc_other _ \<Rightarrow> default_body sc_internal_server_error
      | _ \<Rightarrow> default_body status)"

section \<open>Responses\<close>

record legacy_response =
  status :: StatusCode
  headers :: "(string \<times> string) list"
  content :: string
  full_response :: string

definition DefaultResponse :: "StatusCode \<Rightarrow> legacy_response" where
  "DefaultResponse code =
     \<lparr>status = code, headers = [(''Content-Length'', to_string (length (ToHtml code))), (''Content-Type'', ''text/html'')],
      content = ToHtml code, full_response = []\<rparr>"

definition PlainTextResponse :: "string \<Rightarrow> legacy_response" where
  "PlainTextResponse t =
     \<lparr>status = sc_ok, headers = [(''Content-Length'', to_string (length t)), (''Content-Type'', ''text/plain'')],
      content = t, full_response = []\<rparr>"

definition HtmlResponse :: "string \<Rightarrow> legacy_response" where
  "HtmlResponse html =
     \<lparr>status = sc_ok, headers = [(''Content-Length'', to_string (length html)), (''Content-Type'', ''text/html'')],
      content = html, full_response = []\<rparr>"

definition GetHeaders :: "legacy_response \<Rightarrow> (string \<times> string) list" where
  "GetHeaders r = headers r"

definition AddHeader :: "string \<Rightarrow> string \<Rightarrow> legacy_response \<Rightarrow> legacy_response" where
  "AddHeader name val r = r\<lparr>headers := headers r @ [(name, val)]\<rparr>"

definition GetBody :: "legacy_response \<Rightarrow> string" where
  "GetBody r = content r"

definition SetBody :: "string \<Rightarrow> legacy_response \<Rightarrow> legacy_response" where
  "SetBody body r = r\<lparr>content := body\<rparr>"

definition GetStatus :: "legacy_response \<Rightarrow> StatusCode" where
  "GetStatus r = status r"

definition SetStatus :: "StatusCode \<Rightarrow> legacy_response \<Rightarrow> legacy_response" where
  "SetStatus code r = r\<lparr>status := code\<rparr>"

definition SetFullResponse :: "string \<Rightarrow> legacy_response \<Rightarrow> legacy_response" where
  "SetFullResponse full r = r\<lparr>full_response := full\<rparr>"

text \<open>
  \<^verbatim>\<open>check += Miscellaneous::crlf\<close> appends a null-terminated string, and the array has two characters and
  no null: \<^verbatim>\<open>operator+=(const char*)\<close> reads past its end. The headers are appended with the length given.
\<close>

definition append_c_string :: "string \<Rightarrow> string \<Rightarrow> string outcome" where
  "append_c_string arr s =
     (if NUL \<in> set arr then Inr (s @ takeWhile (\<lambda>c. c \<noteq> NUL) arr) else Inl Undefined_Behaviour)"

definition legacy_ToString :: "legacy_response \<Rightarrow> string outcome" where
  "legacy_ToString r =
     (if full_response r \<noteq> [] then Inr (full_response r)
      else
        let check = Status_ToString (status r) @ concat (map (\<lambda>(name, val). name @ '': '' @ val @ crlf) (headers r)) in
        bind_out (append_c_string crlf check) (\<lambda>check. Inr (check @ content r)))"

section \<open>What the class promises\<close>

lemma known_code_cases: "c \<in> set known_codes \<longleftrightarrow> (\<forall>n. c \<noteq> sc_other n)"
  by (cases c) (simp_all add: known_codes_def)

text \<open>
  The default response for a status announces exactly the length of its page, and its page states
  the code of the status, except for 200, whose page is empty, and 504, which gets the page of 500
  although a page for it is defined.
\<close>

theorem default_response_page:
  assumes "c \<in> set known_codes"
  shows "GetStatus (DefaultResponse c) = c \<and>
    map_of (GetHeaders (DefaultResponse c)) ''Content-Length'' = Some (to_string (length (GetBody (DefaultResponse c)))) \<and>
    (sublist (''<h1>'' @ to_string (code_number c)) (GetBody (DefaultResponse c)) \<longleftrightarrow> c \<noteq> sc_ok \<and> c \<noteq> sc_gateway_timeout) \<and>
    GetBody (DefaultResponse sc_gateway_timeout) = default_body sc_internal_server_error"
proof -
  have "list_all (\<lambda>c. sublist (''<h1>'' @ to_string (code_number c)) (ToHtml c) = (c \<noteq> sc_ok \<and> c \<noteq> sc_gateway_timeout)) known_codes"
    by code_simp
  with assms show ?thesis
    by (simp add: list_all_iff DefaultResponse_def GetStatus_def GetHeaders_def GetBody_def ToHtml_def)
qed

theorem default_response_page_witness:
  "sublist ''<h1>404'' (GetBody (DefaultResponse sc_not_found))"
proof -
  have "to_string (code_number sc_not_found) = ''404''" by code_simp
  then show ?thesis using default_response_page [of sc_not_found] by (simp add: known_codes_def)
qed

text \<open>The dispatcher prints the same status lines, but for the one of 504.\<close>

lemma Status_ToString_dispatcher: "Status_ToString c = Dispatcher_ToString c \<longleftrightarrow> c \<noteq> sc_gateway_timeout"
  by (cases c) simp_all

text \<open>Printing a response is undefined unless the full response has been set.\<close>

lemma legacy_ToString_defined: "legacy_ToString r = (if full_response r = [] then Inl Undefined_Behaviour else Inr (full_response r))"
  by (simp add: legacy_ToString_def append_c_string_def)

lemma legacy_ToString_full: "full \<noteq> [] \<Longrightarrow> legacy_ToString (SetFullResponse full r) = Inr full"
  by (simp add: legacy_ToString_defined SetFullResponse_def)

end
