(* ===== verification/Cache_Directives.thy ===== *)
theory Cache_Directives
  imports Proxy_Handler
begin

text \<open>
  The \<^verbatim>\<open>Cache-Control\<close> header of a request as a list of directives: how a client prints it, that
  \<^verbatim>\<open>ProxyHandler::parse_cache_hdrs\<close> reads exactly the directives printed, and what the proxy decides on
  them. The comment at the function asks for this to be checked.
\<close>

section \<open>Printing directives\<close>

datatype cache_directive = Plain_Dir string | Valued_Dir string nat

fun directive_text :: "cache_directive \<Rightarrow> string" where
  "directive_text (Plain_Dir name) = name"
| "directive_text (Valued_Dir name n) = name @ ''='' @ to_string n"

fun directive_pair :: "cache_directive \<Rightarrow> string \<times> int" where
  "directive_pair (Plain_Dir name) = (name, 1)"
| "directive_pair (Valued_Dir name n) = (name, int n)"

definition valued_names :: "string list" where
  "valued_names = [''max-age'', ''max-stale'', ''min-fresh'']"

fun directive_ok :: "cache_directive \<Rightarrow> bool" where
  "directive_ok (Plain_Dir name) =
     (name \<noteq> [] \<and> \<not> isspace (hd name) \<and> \<not> isspace (last name) \<and> CHR '','' \<notin> set name \<and> \<not> has_value name)"
| "directive_ok (Valued_Dir name n) = (name \<in> set valued_names \<and> n < 2 ^ 31)"

fun directives_text :: "cache_directive list \<Rightarrow> string" where
  "directives_text [] = []"
| "directives_text [d] = directive_text d"
| "directives_text (d # ds) = directive_text d @ '', '' @ directives_text ds"

section \<open>Reading them back\<close>

lemma trim_padded:
  assumes "\<forall>c \<in> set ws. isspace c" "t \<noteq> []" "\<not> isspace (hd t)" "\<not> isspace (last t)"
  shows "trim_if isspace (ws @ t) = t"
proof -
  have 1: "dropWhile isspace (ws @ t) = t" using assms(1-3) by (cases t) (simp_all add: dropWhile_append2)
  have "dropWhile isspace (rev t) = rev t" using assms(2,4) by (cases t rule: rev_cases) simp_all
  with 1 show ?thesis by (simp add: trim_if_def)
qed

lemma valued_name_facts:
  assumes "name \<in> set valued_names"
  shows "name \<noteq> []" "\<not> isspace (hd name)" "CHR ''='' \<notin> set name" "CHR '','' \<notin> set name" "has_value (name @ t)"
proof -
  have "list_all (\<lambda>n. n \<noteq> [] \<and> \<not> isspace (hd n) \<and> CHR ''='' \<notin> set n \<and> CHR '','' \<notin> set n) valued_names" by code_simp
  with assms show "name \<noteq> []" "\<not> isspace (hd name)" "CHR ''='' \<notin> set name" "CHR '','' \<notin> set name" by (auto simp: list_all_iff)
  have "str_find name (name @ t) \<noteq> -1" by (simp add: str_find_self)
  with assms show "has_value (name @ t)" by (auto simp: has_value_def valued_names_def)
qed

lemma directive_read:
  assumes "directive_ok d"
  shows "directive (directive_text d) = Inr (directive_pair d)"
proof (cases d)
  case (Plain_Dir name)
  with assms show ?thesis by (simp add: directive_def)
next
  case (Valued_Dir name n)
  with assms have name: "name \<in> set valued_names" and n: "n < 2 ^ 31" by simp_all
  have pos: "str_find ''='' (name @ ''='' @ to_string n) = int (length name)"
    using str_find_char_split [OF valued_name_facts(3) [OF name], of "to_string n"] by simp
  have "substr_from (name @ ''='' @ to_string n) (int (length name) + 1) = Inr (to_string n)"
    using substr_suffix [of "name @ ''=''" "to_string n"] by (simp add: add.commute)
  then show ?thesis
    using Valued_Dir valued_name_facts(5) [OF name, of "''='' @ to_string n"] pos stoi_to_string [OF n] to_string_isNum [of n]
      substr_prefix [of name "''='' @ to_string n"]
    by (simp add: directive_def Let_def del: substr_prefix)
qed

lemma directive_text_facts:
  assumes "directive_ok d"
  shows "directive_text d \<noteq> []" "\<not> isspace (hd (directive_text d))" "\<not> isspace (last (directive_text d))"
    "CHR '','' \<notin> set (directive_text d)"
  using assms valued_name_facts digits_not_comma to_string_last_space by (cases d; simp)+

lemma spaces_no_comma: "\<forall>c \<in> set ws. isspace c \<Longrightarrow> CHR '','' \<notin> set ws"
proof -
  have "\<not> isspace (CHR '','')" by code_simp
  then show "\<forall>c \<in> set ws. isspace c \<Longrightarrow> CHR '','' \<notin> set ws" by blast
qed

lemma directives_text_read:
  assumes "boost B" "ds \<noteq> []" "list_all directive_ok ds" "\<forall>c \<in> set ws. isspace c"
  shows "directives B (ws @ directives_text ds) m = Inr (fold (\<lambda>(k, v). smap_update k v) (map directive_pair ds) m)"
  using assms(2-4)
proof (induction ds arbitrary: ws m rule: directives_text.induct)
  case (2 d)
  have d: "directive_ok d" using "2.prems"(2) by simp
  have "CHR '','' \<notin> set ws" using spaces_no_comma [OF "2.prems"(3)] .
  then have none: "str_find '','' (ws @ directive_text d) = -1"
    using directive_text_facts(4) [OF d] by (simp add: str_find_char_absent)
  have trim: "trim_copy B (ws @ directive_text d) = directive_text d"
    using trim_padded [OF "2.prems"(3) directive_text_facts(1-3) [OF d]] boost.trim_doc [OF assms(1)] by simp
  obtain k v where kv: "directive_pair d = (k, v)" by (cases "directive_pair d")
  show ?case
    unfolding directives_text.simps by (subst directives.simps) (simp add: none trim directive_read [OF d] kv)
next
  case (3 d e ds)
  have d: "directive_ok d" "list_all directive_ok (e # ds)" using "3.prems"(2) by simp_all
  have "CHR '','' \<notin> set ws" using spaces_no_comma [OF "3.prems"(3)] .
  then have "CHR '','' \<notin> set (ws @ directive_text d)" using directive_text_facts(4) [OF d(1)] by simp
  from str_find_char_split [OF this]
  have pos: "str_find '','' (ws @ directive_text d @ CHR '','' # SP # directives_text (e # ds)) = int (length (ws @ directive_text d))"
    by simp
  have tok: "substr (ws @ directive_text d @ CHR '','' # SP # directives_text (e # ds)) 0 (int (length (ws @ directive_text d))) =
      Inr (ws @ directive_text d)" using substr_prefix [of "ws @ directive_text d"] by simp
  have IH: "directives B ([SP] @ directives_text (e # ds)) m' =
      Inr (fold (\<lambda>(k, v). smap_update k v) (map directive_pair (e # ds)) m')" for m'
    using "3.IH" [of "[SP]" m'] d(2) by (simp add: isspace_def)
  have trim: "trim_copy B (ws @ directive_text d) = directive_text d"
    using trim_padded [OF "3.prems"(3) directive_text_facts(1-3) [OF d(1)]] boost.trim_doc [OF assms(1)] by simp
  have shape: "ws @ directives_text (d # e # ds) = ws @ directive_text d @ CHR '','' # SP # directives_text (e # ds)" by simp
  obtain k v where kv: "directive_pair d = (k, v)" by (cases "directive_pair d")
  have rest: "drop (nat (int (length (ws @ directive_text d))) + 1) (ws @ directive_text d @ CHR '','' # SP # directives_text (e # ds)) =
      [SP] @ directives_text (e # ds)" by (simp add: nat_int_add Suc_diff_le)
  show ?case
    unfolding shape
    by (subst directives.simps) (simp only: pos tok trim directive_read [OF d(1)] kv rest IH Let_def bind_out_simps prod.case list.map fold.simps comp_apply
      of_nat_eq_iff if_False if_True list.size simp_thms split: if_splits, simp)
qed simp

text \<open>The value stated for a directive: the last one counts, and 0 stands for none.\<close>

definition stated :: "cache_directive list \<Rightarrow> string \<Rightarrow> int" where
  "stated ds name = (case map_of (rev (map directive_pair ds)) name of None \<Rightarrow> 0 | Some v \<Rightarrow> v)"

lemma fold_update_lookup:
  "smap_lookup (fold (\<lambda>(k, v). smap_update k v) ps m) k = (case map_of (rev ps) k of None \<Rightarrow> smap_lookup m k | Some v \<Rightarrow> Some v)"
proof (induction ps arbitrary: m)
  case (Cons p ps)
  obtain a b where p: "p = (a, b)" by (cases p)
  have "map_of (rev (p # ps)) k = (case map_of (rev ps) k of None \<Rightarrow> (if k = a then Some b else None) | Some v \<Rightarrow> Some v)"
    by (auto simp: p map_add_def split: option.splits)
  with Cons.IH show ?case by (simp add: p smap_lookup_update split: option.splits)
qed simp

lemma parse_directives:
  assumes "boost B" "ds \<noteq> []" "list_all directive_ok ds" "smap_lookup hdrs ''Cache-Control'' = Some (directives_text ds)"
  shows "\<exists>m. parse_cache_hdrs B hdrs = Inr m \<and> smap_lookup m = map_of (rev (map directive_pair ds)) \<and> (\<forall>k. map_at 0 m k = stated ds k)"
proof -
  let ?m = "fold (\<lambda>(k, v). smap_update k v) (map directive_pair ds) []"
  have "smap_lookup ?m k = map_of (rev (map directive_pair ds)) k" for k
    by (simp add: fold_update_lookup split: option.splits)
  moreover from this have "map_at 0 ?m k = stated ds k" for k by (simp add: map_at_def stated_def)
  ultimately show ?thesis
    using directives_text_read [OF assms(1-3), of "[]" "[]"] assms(4)
    by (intro exI [of _ ?m]) (simp add: parse_cache_hdrs_def map_at_def fun_eq_iff)
qed

text \<open>
  \<^bold>\<open>C26.\<close> The directives a client prints into the \<^verbatim>\<open>Cache-Control\<close> header, separated by commas and blanks,
  are read back exactly: the map has each plain directive with 1 and each \<^verbatim>\<open>max-age\<close>, \<^verbatim>\<open>max-stale\<close> and
  \<^verbatim>\<open>min-fresh\<close> with its number, the last one where a directive is repeated, and nothing else.
\<close>

theorem cache_directives_read:
  assumes "boost B" "ds \<noteq> []" "list_all directive_ok ds" "smap_lookup hdrs ''Cache-Control'' = Some (directives_text ds)"
  shows "\<exists>m. parse_cache_hdrs B hdrs = Inr m \<and> smap_lookup m = map_of (rev (map directive_pair ds))"
  using parse_directives [OF assms] by blast

theorem cache_directives_read_witness:
  "\<exists>m. parse_cache_hdrs boost_ref [(''Cache-Control'', directives_text [Plain_Dir ''no-store'', Valued_Dir ''max-age'' 120])] = Inr m \<and>
     smap_lookup m ''max-age'' = Some 120 \<and> smap_lookup m ''no-store'' = Some 1 \<and> smap_lookup m ''max-stale'' = None"
proof -
  let ?ds = "[Plain_Dir ''no-store'', Valued_Dir ''max-age'' 120]"
  have "list_all directive_ok [Plain_Dir ''no-store'']" by code_simp
  then have "list_all directive_ok ?ds" by (simp add: valued_names_def)
  from cache_directives_read [OF boost_ref_documented _ this, of "[(''Cache-Control'', directives_text ?ds)]"]
  show ?thesis by (auto simp: smap_lookup_def [of "[(''Cache-Control'', _)]"])
qed

section \<open>What the proxy decides\<close>

text \<open>When a page that is present may be used, by its age; the test for \<^verbatim>\<open>min-fresh\<close> is the one of the code.\<close>

definition page_wanted :: "cache_directive list \<Rightarrow> cached_page \<Rightarrow> int \<Rightarrow> bool" where
  "page_wanted ds page now =
     (let age = now - cp_time_start page; max_age = stated ds ''max-age''; max_stale = stated ds ''max-stale'';
          min_fresh = stated ds ''min-fresh'' in
      if min_fresh \<noteq> 0 then age > min_fresh
      else if max_age \<noteq> 0 \<and> max_stale \<noteq> 0 then max_age \<le> max_stale \<and> age - cp_max_age page < max_stale \<and> age \<le> max_age
      else if max_age \<noteq> 0 then age \<le> max_age
      else if max_stale \<noteq> 0 then age - cp_max_age page < max_stale
      else True)"

lemma page_usable_cases:
  "fst (page_usable clk m page) =
     (if map_at 0 m ''min-fresh'' \<noteq> 0 then isFresh page (map_at 0 m ''min-fresh'') (now_fresh clk)
      else if map_at 0 m ''max-age'' \<noteq> 0 \<and> map_at 0 m ''max-stale'' \<noteq> 0
      then map_at 0 m ''max-age'' \<le> map_at 0 m ''max-stale'' \<and> couldStale page (map_at 0 m ''max-stale'') (now_stale clk) \<and>
        \<not> isExpired page (map_at 0 m ''max-age'') (now_expired clk)
      else if map_at 0 m ''max-age'' \<noteq> 0 then \<not> isExpired page (map_at 0 m ''max-age'') (now_expired clk)
      else if map_at 0 m ''max-stale'' \<noteq> 0 then couldStale page (map_at 0 m ''max-stale'') (now_stale clk)
      else True)"
  by (auto simp: page_usable_def Let_def not_less)

lemma page_usable_wanted:
  assumes "\<forall>k. map_at 0 m k = stated ds k" "now_stale clk = now" "now_expired clk = now" "now_fresh clk = now"
    "\<bar>now - cp_time_start page - cp_max_age page\<bar> < 2 ^ 31"
  shows "fst (page_usable clk m page) = page_wanted ds page now"
proof -
  have stale: "couldStale page k now \<longleftrightarrow> now - cp_time_start page - cp_max_age page < k" for k
    unfolding couldStale_in_range [OF assms(5)] by linarith
  have age: "isExpired page k now \<longleftrightarrow> \<not> now - cp_time_start page \<le> k" "isFresh page k now \<longleftrightarrow> k < now - cp_time_start page" for k
    by (auto simp: isExpired_def isFresh_def)
  show ?thesis
    unfolding page_usable_cases page_wanted_def Let_def assms(2-4) assms(1) [rule_format] stale age by (simp only: not_not)
qed

text \<open>
  \<^bold>\<open>C25.\<close> What the proxy does with a cached page is decided by the directives the client printed, where a
  number 0 counts as not stated and the clock shows one time throughout. Under \<^verbatim>\<open>no-cache\<close> or \<^verbatim>\<open>no-store\<close> the
  page is not sent. Otherwise, if \<^verbatim>\<open>min-fresh=n\<close> is stated, the page is sent exactly when it is more than \<open>n\<close>
  seconds old, whatever \<^verbatim>\<open>max-age\<close> and \<^verbatim>\<open>max-stale\<close> say. Without it, the page is sent: under \<^verbatim>\<open>max-age=n\<close> alone,
  when it is at most \<open>n\<close> seconds old; under \<^verbatim>\<open>max-stale=m\<close> alone, when it has been out of its minute for less than
  \<open>m\<close> seconds; under both, when both hold and \<open>n \<le> m\<close>; under neither, always. A page that is sent is
  recorded as not modified. In all other cases the target is fetched and recorded with the code of the
  response; the page stays as it is, except under \<^verbatim>\<open>no-store\<close> without \<^verbatim>\<open>no-cache\<close>: then it is removed, and a
  response with code 200 takes its place. (The comment on \<^verbatim>\<open>isFresh\<close> says that the page is at least as fresh
  as \<^verbatim>\<open>min-fresh\<close> asks.)
\<close>

theorem proxy_cache_decision:
  assumes "boost B" "ds \<noteq> []" "list_all directive_ok ds" "smap_lookup (req_headers r) ''Cache-Control'' = Some (directives_text ds)"
    "smap_lookup (st_cached_pages s) (req_uri r) = Some page" "now_stale clk = now" "now_expired clk = now" "now_fresh clk = now"
    "\<bar>now - cp_time_start page - cp_max_age page\<bar> < 2 ^ 31"
    "dropped = (stated ds ''no-cache'' = 0 \<and> stated ds ''no-store'' \<noteq> 0)"
  shows "Proxy_handleRequest B C clk ph r s =
    (if stated ds ''no-cache'' = 0 \<and> stated ds ''no-store'' = 0 \<and> page_wanted ds page now
     then Inr (cp_response page, s\<lparr>st_status := st_status s @ [record_text (req_uri r) ''ProxyHandler'' sc_not_modified]\<rparr>)
     else bind_out (proxy_dest ph (req_uri r)) (\<lambda>dest. bind_out (proxy_fetch C ph dest) (\<lambda>res.
       let s1 = (if dropped then s\<lparr>st_cached_pages := smap_erase (req_uri r) (st_cached_pages s)\<rparr> else s);
           s2 = s1\<lparr>st_status := st_status s @ [record_text (req_uri r) ''ProxyHandler'' (res_code res)]\<rparr>
       in Inr (res, if dropped \<and> res_code res = sc_ok then store_cache clk (req_uri r) res s2 else s2))))"
proof -
  obtain m where m: "parse_cache_hdrs B (req_headers r) = Inr m" "\<forall>k. map_at 0 m k = stated ds k"
    using parse_directives [OF assms(1-4)] by blast
  obtain b where u: "page_usable clk m page = (page_wanted ds page now, b)"
    using page_usable_wanted [OF m(2) assms(6-9)] by (cases "page_usable clk m page") simp
  have kept: "(if b then store_cache clk (req_uri r) res (s\<lparr>st_status := log\<rparr>) else s\<lparr>st_status := log\<rparr>) = s\<lparr>st_status := log\<rparr>" for b res log
    using assms(5) store_cache_present [of "s\<lparr>st_status := log\<rparr>" "req_uri r"] by simp
  consider (validate) "stated ds ''no-cache'' \<noteq> 0" | (drop) "stated ds ''no-cache'' = 0" "stated ds ''no-store'' \<noteq> 0"
    | (plain) "stated ds ''no-cache'' = 0" "stated ds ''no-store'' = 0" by blast
  then show ?thesis
  proof cases
    case validate
    then show ?thesis
      by (simp add: assms(10) Proxy_handleRequest_def m cache_control_def addRecord_def Let_def kept)
  next
    case drop
    then show ?thesis
      by (simp add: assms(5,10) Proxy_handleRequest_def m cache_control_def u addRecord_def Let_def cong: if_cong)
  next
    case plain
    then show ?thesis
      by (simp add: assms(5,10) Proxy_handleRequest_def m cache_control_def u use_cache_def get_cache_def addRecord_def Let_def kept)
  qed
qed

theorem proxy_cache_decision_witness:
  "Proxy_handleRequest boost_ref (one_reply [] ''new'') (all_at 130) ucla
      (ask [(''Cache-Control'', directives_text [Valued_Dir ''max-age'' 60, Valued_Dir ''max-stale'' 90])] ''/u/a'')
      (with_page ''/u/a'' (text_page ''old'') 100) =
     Inr (text_page ''old'', (with_page ''/u/a'' (text_page ''old'') 100)\<lparr>st_status := [record_text ''/u/a'' ''ProxyHandler'' sc_not_modified]\<rparr>)"
proof -
  let ?ds = "[Valued_Dir ''max-age'' 60, Valued_Dir ''max-stale'' 90]" and ?page = "new_cached_page (text_page ''old'') one_min 100"
  let ?r = "ask [(''Cache-Control'', directives_text ?ds)] ''/u/a''" and ?s = "with_page ''/u/a'' (text_page ''old'') 100"
  have ds: "?ds \<noteq> []" "list_all directive_ok ?ds" by (simp_all add: valued_names_def)
  have hdr: "smap_lookup (req_headers ?r) ''Cache-Control'' = Some (directives_text ?ds)"
    by (simp only: ask_def request.select_convs smap_lookup_def) simp
  have page: "smap_lookup (st_cached_pages ?s) (req_uri ?r) = Some ?page" by (simp add: with_page_def ask_def smap_lookup_def)
  have clk: "now_stale (all_at 130) = 130" "now_expired (all_at 130) = 130" "now_fresh (all_at 130) = 130" by (simp_all add: all_at_def)
  have range: "\<bar>130 - cp_time_start ?page - cp_max_age ?page\<bar> < 2 ^ 31" by (simp add: new_cached_page_def one_min_def)
  have "stated ?ds ''no-cache'' = 0" "stated ?ds ''no-store'' = 0" "page_wanted ?ds ?page 130"
    by (simp_all add: stated_def page_wanted_def new_cached_page_def one_min_def)
  moreover have "cp_response ?page = text_page ''old''" "req_uri ?r = ''/u/a''" "st_status ?s = []"
    by (simp_all add: new_cached_page_def ask_def with_page_def)
  ultimately show ?thesis
    using proxy_cache_decision [OF boost_ref_documented ds hdr page clk range refl, of "one_reply [] ''new''" ucla]
    by (simp only: simp_thms if_True append_Nil)
qed

end
