(* ===== verification/Spec2Isabelle.thy ===== *)
theory Spec2Isabelle
  imports Event_Log Shared_State Port_Aliases Legacy_Response Cache_Directives
begin

text \<open>
  A verification development for the web server of this repository, a C++ program on Boost.Asio. The
  program reads an nginx-style configuration, listens on the port it states, and answers HTTP requests
  by handlers registered for locations: static files, echo, status, error and health pages, a reverse
  proxy and a caching proxy.

  \<^bold>\<open>How the parts fit together.\<close> \<^verbatim>\<open>main\<close> reads the port and the handler blocks from the configuration
  (\<^verbatim>\<open>port\<close>, \<^verbatim>\<open>config_parser\<close>), and the server builds its table of handlers from them. A session per
  connection collects the text of a request, checks it with \<^verbatim>\<open>utils\<close>, parses it with the one request
  parser all sessions share, finds the handler of the longest matching location, and has the dispatcher
  send the response. The handlers share static data: the records of the status page, the cache of the
  proxies and the roots of the static locations. All parts write to one log, whose lines carry the
  address, path and code the session and the server have set.

  \<^bold>\<open>The theories\<close>, in the order of their imports:
  \<^item> \<^verbatim>\<open>Prelude\<close>: faults (\<^verbatim>\<open>fault\<close>: undefined behaviour and the exceptions of the standard library) and the
    sum type \<^verbatim>\<open>outcome\<close>; the operations of \<^verbatim>\<open>std::string\<close>, \<^verbatim>\<open>std::map\<close> and the number conversions the
    sources use, with their lemmas; a locale for maps, interpreted on the association lists that stand
    for \<^verbatim>\<open>std::map\<close>.
  \<^item> \<^verbatim>\<open>Regex\<close>: regular expressions with an executable matcher, its language, and the interface of an engine.
  \<^item> \<^verbatim>\<open>Boost_Lib\<close>: what the sources call of Boost's string algorithms and \<^verbatim>\<open>xpressive\<close>, as a parameter; the
    locale \<^verbatim>\<open>boost\<close> states what is documented of it, \<^verbatim>\<open>boost_ref\<close> is an instance.
  \<^item> \<^verbatim>\<open>Http_Types\<close>: \<^verbatim>\<open>Request\<close> and \<^verbatim>\<open>Response\<close> with their enumerations.
  \<^item> \<^verbatim>\<open>Request_Parser\<close> (\<^verbatim>\<open>request_parser.cc\<close>): the character-driven parser with its 21 states. It inverts the
    rendering of requests, does not depend on how the text is cut into pieces, is undefined on an empty
    target only, and the path it infers cannot climb.
  \<^item> \<^verbatim>\<open>Config_Parser\<close> (\<^verbatim>\<open>config_parser.cc\<close>): tokenizer, parser and printer. Parsing inverts printing; every
    input ends in a verdict.
  \<^item> \<^verbatim>\<open>Port\<close>, \<^verbatim>\<open>Port_Aliases\<close> (\<^verbatim>\<open>port.cc\<close>): the scans of a configuration for port, aliases and handler blocks. A loop that may
    not end is a \<^verbatim>\<open>partial_function\<close>, where \<^const>\<open>None\<close> is a run that does not return. The settings read from a
    printed configuration are those stated; where the scans hang or write out of bounds is proved too.
  \<^item> \<^verbatim>\<open>Utils\<close> (\<^verbatim>\<open>utils.cc\<close>): the checks on raw text, decided exactly by \<^verbatim>\<open>check_request_spec\<close>; decoding.
  \<^item> \<^verbatim>\<open>Cached_Page\<close>, \<^verbatim>\<open>Statics\<close>: cached pages, and the static data of the handlers with the locales
    \<^verbatim>\<open>request_handler\<close> (what every handler keeps) and \<^verbatim>\<open>text_handler\<close> (handlers that always answer). Each
    handler interprets one of them; lemmas on sequences of requests are proved once, in the locales.
  \<^item> \<^verbatim>\<open>Simple_Handlers\<close>, \<^verbatim>\<open>Proxy_Handler\<close>, \<^verbatim>\<open>Static_File_Handler\<close>: the handlers, of the files of these names and
    \<^verbatim>\<open>status_handler.cc\<close>, \<^verbatim>\<open>echo_handler.cc\<close>, \<^verbatim>\<open>error_handler.cc\<close>, \<^verbatim>\<open>health_handler.cc\<close>, \<^verbatim>\<open>cache_handler.cc\<close>.
  \<^item> \<^verbatim>\<open>Cache_Directives\<close>: the \<^verbatim>\<open>Cache-Control\<close> header; the directives printed are those read, and they decide what
    the proxy does with a cached page.
  \<^item> \<^verbatim>\<open>Dispatcher\<close> (\<^verbatim>\<open>dispatcher.cc\<close>): printing and sending a response; a reference client reads it back.
  \<^item> \<^verbatim>\<open>Server\<close> (\<^verbatim>\<open>server.cc\<close>, \<^verbatim>\<open>main.cc\<close>): the table, the port, the start of the program.
  \<^item> \<^verbatim>\<open>Logging\<close>, \<^verbatim>\<open>Handler_Log\<close> (\<^verbatim>\<open>logging.h\<close>, \<^verbatim>\<open>logging.cc\<close>, and the log statements of the handlers and \<^verbatim>\<open>main\<close>): attributes,
    records and the lines the formatter makes of them; for each function with log statements the list of
    messages a call writes, along the same branches. A missing file is logged exactly when the answer is
    404, and an error of the proxy means 500.
  \<^item> \<^verbatim>\<open>Session\<close>, \<^verbatim>\<open>Session_Serving\<close>, \<^verbatim>\<open>Session_Errors\<close> (\<^verbatim>\<open>session.cc\<close>): a connection and
    its callbacks; routing; that requests are answered, in one piece or line by line; what happens to
    other input. The requests are those of \<^verbatim>\<open>client_request\<close>: one of the nine methods in capitals, a path of segments,
    version 1 or 2, headers whose names both the pattern of the session and the parser take (letters,
    joined by hyphens), and a body of the length \<^verbatim>\<open>Content-Length\<close> states. Requests for absolute addresses,
    which the session accepts too, are treated at the level of the cache handler.
  \<^item> \<^verbatim>\<open>Event_Loop\<close> (\<^verbatim>\<open>server::start_accept\<close>, \<^verbatim>\<open>server::handle_accept\<close>): several sessions over shared globals as a
    step relation, the invariant of its runs, and requests of several clients under any schedule of
    arrivals and completed writes; what a rejected text of one client does to the request of another.
  \<^item> \<^verbatim>\<open>Shared_State\<close>: sequences of requests of any kind over the state the handlers share: the lengths the
    responses announce, the life of a cached page, and the records of the status page. The locale
    \<^verbatim>\<open>kept_by_requests\<close> carries a condition through such a sequence; it is interpreted for lengths and for pages.
  \<^item> \<^verbatim>\<open>Event_Log\<close>: the log of a running server: one line with a code per response, and which address it has.
  \<^item> \<^verbatim>\<open>Legacy_Response\<close> (\<^verbatim>\<open>response.cc\<close>): the response class of an earlier version, which is not built: status
    lines, default pages, printing.
  \<^item> This theory: properties from the text of the configuration to the bytes a client receives.

  \<^bold>\<open>Parameters.\<close> Boost is \<^verbatim>\<open>boost_lib\<close>, and \<^verbatim>\<open>log_lib\<close> for Boost.Log (line numbers, names of severities, \<^verbatim>\<open>%i%\<close>
  in formats); libcurl is \<^verbatim>\<open>curl\<close> (which options can be set, and the transfer, as the
  header lines and pieces of the body it passes to the callbacks); the clock is \<^verbatim>\<open>clock\<close>, the readings of
  \<^verbatim>\<open>time(0)\<close> one request makes; the files are \<^verbatim>\<open>filesystem\<close>; the socket is the function that says how many
  bytes \<^verbatim>\<open>write_some\<close> takes, with \<^verbatim>\<open>writes_some\<close> as what is documented of it. Memory that is not
  initialised is an argument. For the buffer of a new session the statements on requests in one piece hold
  for all contents with a null somewhere behind the bytes of the first request (without one the read is
  undefined); requests that arrive line by line, and texts that are no requests, are treated for a
  buffer that has been cleared, as it is after every answer, and what goes wrong otherwise is stated for words of letters.

  \<^bold>\<open>Integers.\<close> The port is kept at 16 bits (\<^verbatim>\<open>listen_port\<close>), the announced length of a body at 64 bits, the line number of the log at 32; \<^verbatim>\<open>stoi\<close>
  fails out of the range of \<^verbatim>\<open>int\<close>. Positions are \<^typ>\<open>int\<close> with \<open>-1\<close> for \<^verbatim>\<open>npos\<close>; texts are taken to be shorter
  than 2 GiB, where the conversion of a position to \<^verbatim>\<open>int\<close> loses nothing. No fuel is used.

  \<^bold>\<open>Not modelled.\<close> Sockets, the acceptor, the delivery of signals and real threads: the threads of a session run where they
  are started, since the session waits for the one it starts for a handler; races between sessions do
  not arise, as \<^verbatim>\<open>io_service::run\<close> is called from one thread. The thread that sends the answer to a bad
  request is only detached; the write it starts is the only pending operation of its session, so no event
  of that session comes before it, and it is taken to run where it is started. That the port can be bound is
  assumed; the error codes of Boost.Asio are values with their message. Buffers passed to asynchronous
  writes are taken to outlive them, and the head of a file response, which is written asynchronously, is
  taken to leave before the body, which is written synchronously after it. How the
  log file is rotated is left to Boost.Log. The test fixture of \<^verbatim>\<open>webserver_test.h\<close> has no code of its own.
\<close>

section \<open>From the configuration to the answer\<close>

text \<open>The handler of a target, as the configuration states it.\<close>

lemma handler_for_spec:
  assumes "distinct (map fst specs)" "segments_ok segs" "(path_text (take j segs), sp) \<in> set specs" "j \<le> length segs"
    "\<forall>i. j < i \<and> i \<le> length segs \<longrightarrow> path_text (take i segs) \<notin> fst ` set specs"
  shows "handler_for (spec_table specs) (path_text segs) = Some (spec_obj (path_text (take j segs)) sp)"
proof -
  let ?ps = "map (\<lambda>(loc, sp). (quoted loc, Some (spec_obj loc sp))) specs"
  let ?loc = "path_text (take j segs)"
  have keys: "fst ` set ?ps = quoted ` fst ` set specs" by force
  have lookup: "smap_lookup (spec_table specs) = map_of ?ps" by (rule spec_lookups(1) [OF assms(1)])
  have "(quoted ?loc, Some (spec_obj ?loc sp)) \<in> set ?ps" using assms(3) by force
  then have here: "smap_lookup (spec_table specs) (quoted ?loc) = Some (Some (spec_obj ?loc sp))"
    unfolding lookup using spec_keys_distinct(1) [OF assms(1)] by (intro map_of_is_SomeI)
  have "smap_lookup (spec_table specs) (quoted (path_text (take i segs))) = None" if "j < i" "i \<le> length segs" for i
    unfolding lookup map_of_eq_None_iff keys using assms(5) that by (auto simp: quoted_def)
  then have "route (spec_table specs) (path_text segs) (quoted (path_text segs)) = (True, quoted ?loc)"
    using route_segments [OF assms(2,4), of "spec_table specs"] here by simp
  then show ?thesis using here path_not_http by (simp add: handler_for_def first_key_def)
qed

text \<open>
  One client connects and sends one request. The buffer of its session is memory that is not
  initialised; of the memory behind the request all that is needed is a null somewhere.
\<close>

definition memory_for :: "client \<Rightarrow> string \<Rightarrow> bool" where
  "memory_for c memory = (length memory = max_length \<and> NUL \<in> set (drop (length (cl_text c)) memory))"

lemma one_client_served:
  assumes "boost B" "env_boost env = B" "writes_some accept" "cl_ok c" "table_handler env tbl (cl_request c) s = Inr (res, s')"
    "log_resCode l = []" "memory_for c memory"
  shows "\<exists>sv. server_run B (started_server memory req junk tbl s l) [Accepted (Inr ip), Received 0 (cl_text c), Written 0] sv \<and>
    sent_to 0 sv = response_head res @ res_body res \<and> sv_statics sv = s' \<and>
    sv_logger sv = request_logged (path_text (cl_segments c)) (table_messages env tbl (cl_request c) s) (res_code res)
      (setIp ip (log_write sev_info (''ACCEPT CLIENT '' @ ip @ '' CONNECTION SUCCESSFULLY'') l))"
proof -
  let ?sv0 = "started_server memory req junk tbl s l"
  let ?sv1 = "handle_accept (Inr ip) memory req ?sv0"
  let ?j = "\<lparr>job_session = 0, job_env = env, job_accept = accept, job_client = c\<rparr>"
  let ?l1 = "setIp ip (log_write sev_info (''ACCEPT CLIENT '' @ ip @ '' CONNECTION SUCCESSFULLY'') l)"
  note defs = handle_accept_def start_accept_def started_server_def new_session_def
  have mem: "length memory = max_length" "NUL \<in> set (drop (length (cl_text c)) memory)" using assms(7) by (simp_all add: memory_for_def)
  have step: "server_step B ?sv0 (Accepted (Inr ip)) ?sv1" by (rule server_step.accepted) (rule mem(1))
  have sv1: "map fst (sv_sessions ?sv1) = [Reading]" "sv_handlers ?sv1 = tbl" "sv_statics ?sv1 = s" "sent_to 0 ?sv1 = []" "sv_logger ?sv1 = ?l1"
    by (simp_all add: defs sent_to_def)
  have ready: "server_ready ?sv1"
    using assms(6) mem(1) by (simp add: defs server_ready_def sessions_open_def session_open_def log_write_def setIp_def)
  have job: "job_ok B ?sv1 ?j" using assms(2-4) mem(2) by (simp add: job_ok_def defs)
  obtain st where st: "server_step B ?sv1 (action_event (Ask ?j)) (store 0 Writing st ?sv1)"
      "concat (ses_sent st) = response_head res @ res_body res" "idle st" "\<not> ses_deleted st" "g_statics st = s'"
      "g_logger st = request_logged (path_text (cl_segments c)) (table_messages env tbl (cl_request c) s) (res_code res) ?l1"
    using ask_step [OF assms(1) ready job] assms(5) sv1 by auto
  let ?sv2 = "store 0 Writing st ?sv1"
  have len: "length (sv_sessions ?sv1) = 1" using arg_cong [OF sv1(1), of length] by simp
  have w: "sessions_open ?sv2" "0 < length (sv_sessions ?sv2)" "map fst (sv_sessions ?sv2) ! 0 = Writing"
    using store_open [of ?sv1 st 0 Writing] ready session_open_facts(2) [of st] st(3,4) sv1(1) len
    by (simp_all add: server_ready_def idle_def store_globals)
  obtain st2 where st2: "server_step B ?sv2 (Written 0) (store 0 Reading st2 ?sv2)" "concat (ses_sent st2) = sent_to 0 ?sv2"
      "g_statics st2 = s'" "g_logger st2 = g_logger st"
    using done_step [OF w, of B] st(5) by (auto simp: store_globals)
  have "sent_to 0 (store 0 Reading st2 ?sv2) = response_head res @ res_body res"
    using st(2) st2(2) len by (simp add: store_sent store_globals)
  moreover have "server_run B ?sv0 [Accepted (Inr ip), Received 0 (cl_text c), Written 0] (store 0 Reading st2 ?sv2)"
    using step st(1) st2(1) by (auto intro: server_run.intros)
  ultimately show ?thesis using st(6) st2(3,4) by (metis store_globals(3,4))
qed

text \<open>The run of one client on a configured server, with what it leaves in the log.\<close>

lemma configured_location_served:
  assumes "boost B" "1 \<le> k" "k \<le> 65535" "\<forall>(loc, sp) \<in> set specs. QUOTE \<notin> set loc \<and> spec_wf sp" "distinct (map fst specs)"
    "file = config_ToString d (server_config (to_string k) (map spec_block specs))"
    "cl_ok c" "(path_text (take j (cl_segments c)), sp) \<in> set specs" "j \<le> length (cl_segments c)"
    "\<forall>i. j < i \<and> i \<le> length (cl_segments c) \<longrightarrow> path_text (take i (cl_segments c)) \<notin> fst ` set specs"
    "env_boost env = B" "writes_some accept"
    "handleRequest env (spec_obj (path_text (take j (cl_segments c))) sp) (cl_request c) (spec_statics specs) = Inr (res, s')" "memory_for c memory"
  shows "main B 2 (Some file) garbage = Some (Inr (Listening (of_nat k) (spec_table specs) (spec_statics specs))) \<and>
    (\<exists>sv. server_run B (started_server memory req junk (spec_table specs) (spec_statics specs) (main_logger 2 (Some file) garbage))
         [Accepted (Inr ip), Received 0 (cl_text c), Written 0] sv \<and>
       sent_to 0 sv = response_head res @ res_body res \<and> sv_statics sv = s' \<and>
       sv_logger sv = request_logged (path_text (cl_segments c))
         (handler_messages env (spec_obj (path_text (take j (cl_segments c))) sp) (cl_request c) (spec_statics specs)) (res_code res)
         (setIp ip (log_write sev_info (''ACCEPT CLIENT '' @ ip @ '' CONNECTION SUCCESSFULLY'') (main_logger 2 (Some file) garbage))))"
proof -
  have "segments_ok (cl_segments c)" using assms(7) by (simp add: cl_ok_def client_request_def)
  from handler_for_spec [OF assms(5) this assms(8-10)] assms(13)
  have "table_handler env (spec_table specs) (cl_request c) (spec_statics specs) = Inr (res, s')"
    and "table_messages env (spec_table specs) (cl_request c) (spec_statics specs) =
      handler_messages env (spec_obj (path_text (take j (cl_segments c))) sp) (cl_request c) (spec_statics specs)"
    by (simp_all add: table_handler_def table_messages_def cl_request_def)
  with one_client_served [OF assms(1,11,12,7) _ main_logger_quiet(1) assms(14)] main_listens [OF assms(1-4,6)] show ?thesis by metis
qed

text \<open>
  \<^bold>\<open>C1.\<close> From the text of the configuration to the bytes a client receives: the program started on a
  printed configuration listens on its port, and a client that connects and asks for a target is sent
  exactly the response of the handler configured for the longest location that is a prefix of the
  target at a slash. The request is in the form the session recognises; the buffer of the session, which
  is not initialised, may hold anything with a null behind the bytes of the request.
\<close>

theorem configured_location_answers:
  assumes "boost B" "1 \<le> k" "k \<le> 65535" "\<forall>(loc, sp) \<in> set specs. QUOTE \<notin> set loc \<and> spec_wf sp" "distinct (map fst specs)"
    "file = config_ToString d (server_config (to_string k) (map spec_block specs))"
    "cl_ok c" "(path_text (take j (cl_segments c)), sp) \<in> set specs" "j \<le> length (cl_segments c)"
    "\<forall>i. j < i \<and> i \<le> length (cl_segments c) \<longrightarrow> path_text (take i (cl_segments c)) \<notin> fst ` set specs"
    "env_boost env = B" "writes_some accept"
    "handleRequest env (spec_obj (path_text (take j (cl_segments c))) sp) (cl_request c) (spec_statics specs) = Inr (res, s')" "memory_for c memory"
  shows "\<exists>tbl s sv. main B 2 (Some file) garbage = Some (Inr (Listening (of_nat k) tbl s)) \<and>
    server_run B (started_server memory req junk tbl s (main_logger 2 (Some file) garbage)) [Accepted (Inr ip), Received 0 (cl_text c), Written 0] sv \<and>
    sent_to 0 sv = response_head res @ res_body res \<and> sv_statics sv = s'"
  using configured_location_served [OF assms] by blast

lemma littered_memory: "length (cl_text c) < 1000 \<Longrightarrow> memory_for c littered_buffer"
  by (simp add: memory_for_def littered_buffer_facts)

theorem configured_location_answers_witness:
  "\<exists>tbl s sv. main boost_ref 2 (Some (config_ToString 0 (server_config (to_string 8080) (map spec_block [(''/e'', Echo_At), (''/h'', Health_At)])))) 0 =
       Some (Inr (Listening (of_nat 8080) tbl s)) \<and>
     server_run boost_ref (started_server littered_buffer (ask [] []) 0 tbl s 
       (main_logger 2 (Some (config_ToString 0 (server_config (to_string 8080) (map spec_block [(''/e'', Echo_At), (''/h'', Health_At)])))) 0))
       [Accepted (Inr ''10.0.0.1''), Received 0 (cl_text (demo_client [''e'', ''hi''])), Written 0] sv \<and>
     sent_to 0 sv = response_head (plain_text_response ''hi'' sc_ok) @ res_body (plain_text_response ''hi'' sc_ok)"
proof -
  let ?specs = "[(''/e'', Echo_At), (''/h'', Health_At)]" and ?c = "demo_client [''e'', ''hi'']"
  let ?S = "handleRequest demo_env (spec_obj (path_text (take 1 (cl_segments ?c))) Echo_At) (cl_request ?c) (spec_statics ?specs)"
  have "isl ?S = False" "fst (projr ?S) = plain_text_response ''hi'' sc_ok" by code_simp+
  then have S: "?S = Inr (plain_text_response ''hi'' sc_ok, snd (projr ?S))" by (metis isl_def prod.collapse sum.collapse(2))
  have c: "cl_ok ?c" "(path_text (take 1 (cl_segments ?c)), Echo_At) \<in> set ?specs" "1 \<le> length (cl_segments ?c)"
    "path_text (take 2 (cl_segments ?c)) \<notin> fst ` set ?specs" "length (cl_text ?c) < 1000" by code_simp+
  have B: "env_boost demo_env = boost_ref" by (simp add: demo_env_def)
  have "i = 2" if "1 < i" "i \<le> length (cl_segments ?c)" for i using that by (simp add: demo_client_def)
  with c(4) have "\<forall>i. 1 < i \<and> i \<le> length (cl_segments ?c) \<longrightarrow> path_text (take i (cl_segments ?c)) \<notin> fst ` set ?specs" by metis
  note i = this
  have n: "1 \<le> (8080 :: nat)" "(8080 :: nat) \<le> 65535" "\<forall>(loc, sp) \<in> set ?specs. QUOTE \<notin> set loc \<and> spec_wf sp" "distinct (map fst ?specs)"
    by (simp_all add: split_def)
  show ?thesis
    using configured_location_answers [OF boost_ref_documented n refl c(1-3) i B demo_env_facts(2) S littered_memory] c(5) by blast
qed


text \<open>The log of a server that was started and has served one client.\<close>

lemma served_log:
  assumes "log_library L" "length ms + 5 < 2 ^ 32"
    "l = log_messages [(sev_info, a), (sev_info, b), (sev_info, c)] initial_logger"
  shows "log_file L (request_logged uri ms code (setIp ip (log_write sev_info d l))) =
    [log_line 1 [] ''info'' a, log_line 2 [] ''info'' b, log_line 3 [] ''info'' c, log_line 4 [] ''info'' d] @
    map (\<lambda>(n, sev, msg). log_line n (''[IP: '' @ ip @ ''][Request_Path: '' @ uri @ '']'') (lib_severity L sev) msg) (enumerate 5 ms) @
    [log_line (5 + length ms) (''[IP: '' @ ip @ ''][Request_Path: '' @ uri @ ''][Response_Code: '' @ to_string (code_number code) @ '']'')
       ''info'' ''VALID REQUEST'']"
proof -
  let ?l = "request_logged uri ms code (setIp ip (log_write sev_info d l))"
  let ?rec = "\<lambda>ip path code sev msg. \<lparr>lr_clientIp = ip, lr_reqPath = path, lr_resCode = code, lr_severity = sev, lr_message = msg\<rparr>"
  have rs: "log_records ?l = map (?rec [] [] [] sev_info) [a, b, c, d] @
      map (\<lambda>(sev, msg). ?rec (''[IP: '' @ ip @ '']'') (''[Request_Path: '' @ uri @ '']'') [] sev msg) ms @
      [request_record (''[IP: '' @ ip @ '']'') uri code]"
    by (simp add: assms(3) request_logged_def log_messages_records log_write_def logger_defs initial_logger_def request_record_def)
  have "length (log_records ?l) < 2 ^ 32" unfolding rs using assms(2) by simp
  from log_library.log_file_lines [OF assms(1) this] show ?thesis
    unfolding rs by (simp add: enumerate_append_eq enumerate_map comp_def split_def log_library.severity_doc [OF assms(1)]
        request_record_def eval_nat_numeral)
qed

text \<open>
  \<^bold>\<open>C11.\<close> The log file of a server that was started on a configuration and has served one client is known
  line by line: three lines of the start, the accept, the lines of the handler with the address of the
  client and the path it asked for, and the line with the code it was answered, numbered from 1. As in
  the delivery of the response, the buffer of the session is any memory with a null behind the request.
\<close>

theorem configured_server_log:
  assumes "boost B" "1 \<le> k" "k \<le> 65535" "\<forall>(loc, sp) \<in> set specs. QUOTE \<notin> set loc \<and> spec_wf sp" "distinct (map fst specs)"
    "file = config_ToString d (server_config (to_string k) (map spec_block specs))"
    "cl_ok c" "(path_text (take j (cl_segments c)), sp) \<in> set specs" "j \<le> length (cl_segments c)"
    "\<forall>i. j < i \<and> i \<le> length (cl_segments c) \<longrightarrow> path_text (take i (cl_segments c)) \<notin> fst ` set specs"
    "env_boost env = B" "writes_some accept"
    "handleRequest env (spec_obj (path_text (take j (cl_segments c))) sp) (cl_request c) (spec_statics specs) = Inr (res, s')"
    "log_library L" "ms = handler_messages env (spec_obj (path_text (take j (cl_segments c))) sp) (cl_request c) (spec_statics specs)"
    "length ms + 5 < 2 ^ 32" "attrs = ''[IP: '' @ ip @ ''][Request_Path: '' @ path_text (cl_segments c) @ '']''" "memory_for c memory"
  shows "\<exists>tbl s sv. main B 2 (Some file) garbage = Some (Inr (Listening (of_nat k) tbl s)) \<and>
    server_run B (started_server memory req junk tbl s (main_logger 2 (Some file) garbage)) [Accepted (Inr ip), Received 0 (cl_text c), Written 0] sv \<and>
    log_file L (sv_logger sv) =
      [log_line 1 [] ''info'' ''DONE'', log_line 2 [] ''info'' (''Start listening on port '' @ to_string k),
       log_line 3 [] ''info'' ''READY TO ACCEPT'', log_line 4 [] ''info'' (''ACCEPT CLIENT '' @ ip @ '' CONNECTION SUCCESSFULLY'')] @
      map (\<lambda>(n, sev, msg). log_line n attrs (lib_severity L sev) msg) (enumerate 5 ms) @
      [log_line (5 + length ms) (attrs @ ''[Response_Code: '' @ to_string (code_number (res_code res)) @ '']'') ''info'' ''VALID REQUEST'']"
proof -
  have l: "main_logger 2 (Some file) garbage = log_messages [(sev_info, ''DONE''),
      (sev_info, ''Start listening on port '' @ to_string k), (sev_info, ''READY TO ACCEPT'')] initial_logger"
    unfolding main_logger_def main_messages_server [OF assms(2-4,6)] by (rule refl)
  show ?thesis
    using configured_location_served [OF assms(1-13,18), of garbage req junk ip]
      served_log [OF assms(14,16) l, of "path_text (cl_segments c)" "res_code res" ip
        "''ACCEPT CLIENT '' @ ip @ '' CONNECTION SUCCESSFULLY''"]
    unfolding assms(15,17) by auto
qed

theorem configured_server_log_witness:
  "\<exists>tbl s sv. main boost_ref 2 (Some (config_ToString 0 (server_config (to_string 8080) (map spec_block [(''/s'', Static_At ''.'' ''data'')])))) 0 =
       Some (Inr (Listening (of_nat 8080) tbl s)) \<and>
     server_run boost_ref (started_server littered_buffer (ask [] []) 0 tbl s
       (main_logger 2 (Some (config_ToString 0 (server_config (to_string 8080) (map spec_block [(''/s'', Static_At ''.'' ''data'')])))) 0))
       [Accepted (Inr ''10.0.0.1''), Received 0 (cl_text (demo_client [''s'', ''a.png''])), Written 0] sv \<and>
     log_file log_ref (sv_logger sv) =
       [''[1][ResponseMetrics][info] DONE'', ''[2][ResponseMetrics][info] Start listening on port 8080'',
        ''[3][ResponseMetrics][info] READY TO ACCEPT'', ''[4][ResponseMetrics][info] ACCEPT CLIENT 10.0.0.1 CONNECTION SUCCESSFULLY'',
        ''[5][ResponseMetrics][IP: 10.0.0.1][Request_Path: /s/a.png][info] ERROR: /srv/data/a.png not found.'',
        ''[6][ResponseMetrics][IP: 10.0.0.1][Request_Path: /s/a.png][Response_Code: 404][info] VALID REQUEST'']"
proof -
  let ?specs = "[(''/s'', Static_At ''.'' ''data'')]" and ?c = "demo_client [''s'', ''a.png'']"
  let ?ms = "[(sev_info, ''ERROR: /srv/data/a.png not found.'')]" and ?attrs = "''[IP: 10.0.0.1][Request_Path: /s/a.png]''"
  let ?S = "handleRequest demo_env (spec_obj (path_text (take 1 (cl_segments ?c))) (Static_At ''.'' ''data'')) (cl_request ?c) (spec_statics ?specs)"
  have "isl ?S = False" "fst (projr ?S) = file_not_found" by code_simp+
  then have S: "?S = Inr (file_not_found, snd (projr ?S))" by (metis isl_def prod.collapse sum.collapse(2))
  have c: "cl_ok ?c" "(path_text (take 1 (cl_segments ?c)), Static_At ''.'' ''data'') \<in> set ?specs" "1 \<le> length (cl_segments ?c)"
    "path_text (take 2 (cl_segments ?c)) \<notin> fst ` set ?specs" "length (cl_text ?c) < 1000" by code_simp+
  have B: "env_boost demo_env = boost_ref" by (simp add: demo_env_def)
  have "i = 2" if "1 < i" "i \<le> length (cl_segments ?c)" for i using that by (simp add: demo_client_def)
  with c(4) have i: "\<forall>i. 1 < i \<and> i \<le> length (cl_segments ?c) \<longrightarrow> path_text (take i (cl_segments ?c)) \<notin> fst ` set ?specs" by metis
  have n: "1 \<le> (8080 :: nat)" "(8080 :: nat) \<le> 65535" "\<forall>(loc, sp) \<in> set ?specs. QUOTE \<notin> set loc \<and> spec_wf sp" "distinct (map fst ?specs)"
    by simp_all
  have ms: "?ms = handler_messages demo_env (spec_obj (path_text (take 1 (cl_segments ?c))) (Static_At ''.'' ''data'')) (cl_request ?c) (spec_statics ?specs)"
    by code_simp
  have at: "?attrs = ''[IP: '' @ ''10.0.0.1'' @ ''][Request_Path: '' @ path_text (cl_segments ?c) @ '']''" by code_simp
  have d: "to_string 1 = ''1''" "to_string 2 = ''2''" "to_string 3 = ''3''" "to_string 4 = ''4''" "to_string 5 = ''5''" "to_string 6 = ''6''"
    "to_string 8080 = ''8080''" "to_string (code_number (res_code file_not_found)) = ''404''"
    by (simp_all add: to_string.simps digit_char_def file_not_found_def char_of_def bit_numeral_rec bit_0)
  have out: "[log_line 1 [] ''info'' ''DONE'', log_line 2 [] ''info'' (''Start listening on port '' @ to_string 8080),
       log_line 3 [] ''info'' ''READY TO ACCEPT'', log_line 4 [] ''info'' (''ACCEPT CLIENT '' @ ''10.0.0.1'' @ '' CONNECTION SUCCESSFULLY'')] @
      map (\<lambda>(n, sev, msg). log_line n ?attrs (lib_severity log_ref sev) msg) (enumerate 5 ?ms) @
      [log_line (5 + length ?ms) (?attrs @ ''[Response_Code: '' @ to_string (code_number (res_code file_not_found)) @ '']'') ''info'' ''VALID REQUEST''] =
    [''[1][ResponseMetrics][info] DONE'', ''[2][ResponseMetrics][info] Start listening on port 8080'',
     ''[3][ResponseMetrics][info] READY TO ACCEPT'', ''[4][ResponseMetrics][info] ACCEPT CLIENT 10.0.0.1 CONNECTION SUCCESSFULLY'',
     ''[5][ResponseMetrics][IP: 10.0.0.1][Request_Path: /s/a.png][info] ERROR: /srv/data/a.png not found.'',
     ''[6][ResponseMetrics][IP: 10.0.0.1][Request_Path: /s/a.png][Response_Code: 404][info] VALID REQUEST'']"
    by (simp only: log_line_def d) (simp add: log_line_def d log_ref_def)
  have len: "length ?ms + 5 < 2 ^ 32" by simp
  show ?thesis
    using configured_server_log [OF boost_ref_documented n refl c(1-3) i B demo_env_facts(2) S log_ref_documented ms len at littered_memory [OF c(5)], where req = "ask [] []" and junk = 0 and garbage = 0 and d = 0]
    unfolding out .
qed

subsection \<open>Files\<close>

text \<open>What of a file is sent: text and HTML files lose their line breaks, other files are sent as they are.\<close>

definition file_body :: "int \<Rightarrow> string \<Rightarrow> string" where
  "file_body ty t = (if ty = 1 then filter (\<lambda>c. c \<noteq> LF) t else t)"

definition file_response :: "int \<Rightarrow> string \<Rightarrow> response" where
  "file_response ty t =
     \<lparr>res_code = sc_ok,
      res_headers = (if ty = 1
        then [(''Content-Length'', to_string (length (file_body ty t))), (''Content-Type'', ''text/html; charset=UTF-8'')]
        else [(''Connection'', ''close''), (''Content-Length'', to_string (length (file_body ty t))),
          (''Content-type'', if ty = 2 then ''image/png'' else if ty = 3 then ''image/jpeg'' else ''application/octet-stream'')]),
      res_body = file_body ty t, res_src_type = ty\<rparr>"

lemma static_sends_file:
  assumes "req_method r \<in> {GET, POST}" "configParser (req_uri r) \<in> {1, 2, 3, 4}" "map_sum id fst (replace_path (req_uri r) s) = Inr path"
    "path \<noteq> []" "file_at D (strip_slashes (current_path D @ path)) = Content t"
  shows "\<exists>s'. Static_handleRequest D r s = Inr (file_response (configParser (req_uri r)) t, s')"
proof -
  obtain line where line: "getRequestLine r = Inr line" using getRequestLine_iff [of r] assms(1) by (auto simp: completes_iff)
  obtain s1 where "replace_path (req_uri r) s = Inr (path, s1)"
    using assms(3) by (cases "replace_path (req_uri r) s") auto
  with assms(2,4,5) show ?thesis
    by (auto simp: Static_handleRequest_def line Let_def getBinaryContent_def formResponse_def getline_loop_filter log_static_def
        file_response_def file_body_def)
qed

lemma file_response_read:
  "read_response (response_head (file_response ty t) @ res_body (file_response ty t)) =
     Some (''HTTP/1.1 200 OK'', res_headers (file_response ty t), file_body ty t)"
proof -
  have "list_all header_clean (res_headers (file_response ty t))"
    by (simp add: file_response_def header_clean_def to_string_no_CR)
  from response_read [OF this] show ?thesis by (simp add: file_response_def)
qed

text \<open>The root a configuration gives to a static location, and to nothing else.\<close>

lemma spec_root_lookup:
  assumes "distinct (map fst specs)"
  shows "(loc, Static_At d p) \<in> set specs \<Longrightarrow> map_at [] (st_locationToRoot (spec_statics specs)) loc = CHR ''/'' # p"
    "loc \<notin> fst ` set specs \<Longrightarrow> map_at [] (st_locationToRoot (spec_statics specs)) loc = []"
proof -
  assume "(loc, Static_At d p) \<in> set specs"
  then have "(loc, CHR ''/'' # p) \<in> set (concat (map spec_root specs))" by force
  then show "map_at [] (st_locationToRoot (spec_statics specs)) loc = CHR ''/'' # p"
    using spec_keys_distinct(2) [OF assms] by (simp add: map_at_def spec_lookups(2) [OF assms] map_of_is_SomeI)
next
  assume "loc \<notin> fst ` set specs"
  moreover have "fst ` set (concat (map spec_root specs)) \<subseteq> fst ` set specs"
  proof
    fix x
    assume "x \<in> fst ` set (concat (map spec_root specs))"
    then obtain y where "y \<in> set specs" "x \<in> fst ` set (spec_root y)" by auto
    then show "x \<in> fst ` set specs" using spec_root_keys [of y] by auto
  qed
  ultimately have "map_of (concat (map spec_root specs)) loc = None" unfolding map_of_eq_None_iff by blast
  then show "map_at [] (st_locationToRoot (spec_statics specs)) loc = []" by (simp add: map_at_def spec_lookups(2) [OF assms])
qed



end
